theory Spec2Isabelle
  imports Main "HOL-Library.Sublist"
begin


section \<open>Python strings\<close>

text \<open>
  A Python \<open>str\<close> is a sequence of Unicode code points and \<open>len\<close> counts code points,
  so a string typed by the user is a list of code points (natural numbers). Text the
  program itself produces for the log file is ASCII and is kept as an Isabelle string.
\<close>

type_synonym pystr = "nat list"

definition ustr :: "string \<Rightarrow> pystr" where
  "ustr s = map of_char s"

text \<open>
  \<open>str.strip()\<close> with no argument removes leading and trailing whitespace. The
  whitespace code points are those of CPython's \<open>Py_UNICODE_ISSPACE\<close>.
\<close>

definition py_isspace :: "nat \<Rightarrow> bool" where
  "py_isspace c \<longleftrightarrow>
     (9 \<le> c \<and> c \<le> 13) \<or> (28 \<le> c \<and> c \<le> 32) \<or> c = 133 \<or> c = 160 \<or> c = 5760 \<or>
     (8192 \<le> c \<and> c \<le> 8202) \<or> c = 8232 \<or> c = 8233 \<or> c = 8239 \<or> c = 8287 \<or> c = 12288"

definition py_strip :: "pystr \<Rightarrow> pystr" where
  "py_strip s = rev (dropWhile py_isspace (rev (dropWhile py_isspace s)))"

text \<open>
  \<open>str.lower()\<close>: on a string of ASCII code points it folds \<open>A\<close>..\<open>Z\<close> to
  \<open>a\<close>..\<open>z\<close>. On a string with a code point beyond ASCII the result comes from the
  Unicode character database of the Python runtime, which is not part of the program;
  it is the parameter \<open>ucd\<close>.
\<close>

definition ascii_lower :: "nat \<Rightarrow> nat" where
  "ascii_lower c = (if 65 \<le> c \<and> c \<le> 90 then c + 32 else c)"

definition py_lower :: "(pystr \<Rightarrow> pystr) \<Rightarrow> pystr \<Rightarrow> pystr" where
  "py_lower ucd s = (if list_all (\<lambda>c. c < 128) s then map ascii_lower s else ucd s)"

text \<open>
  The regular expressions of the program are single bracket classes: \<open>[A-Z]\<close>,
  \<open>[a-z]\<close>, \<open>[0-9]\<close> and \<open>[@$!%*?&]\<close>. A class is a list of inclusive code point
  ranges (a single character \<open>c\<close> is the range \<open>(c, c)\<close>), and \<open>re.search\<close> of a
  class is truthy when some code point of the string lies in one of the ranges.
\<close>

type_synonym char_class = "(nat \<times> nat) list"

definition in_class :: "char_class \<Rightarrow> nat \<Rightarrow> bool" where
  "in_class cls c = list_ex (\<lambda>(lo, hi). lo \<le> c \<and> c \<le> hi) cls"

definition re_search :: "char_class \<Rightarrow> pystr \<Rightarrow> bool" where
  "re_search cls s = list_ex (in_class cls) s"

definition UPPER :: char_class where
  "UPPER = [(of_char CHR ''A'', of_char CHR ''Z'')]"

definition LOWER :: char_class where
  "LOWER = [(of_char CHR ''a'', of_char CHR ''z'')]"

definition DIGIT :: char_class where
  "DIGIT = [(of_char CHR ''0'', of_char CHR ''9'')]"

definition SYMBOLS :: char_class where
  "SYMBOLS = map (\<lambda>c. (of_char c, of_char c)) ''@$!%*?&''"

section \<open>Password logic (version 2.0)\<close>

text \<open>
  \<open>score_password(password, min_len=8, symbols_pat=r"[@$!%*?&]")\<close>: the score starts
  at 0 and each of the five tests adds one.
\<close>

definition score_password :: "pystr \<Rightarrow> int \<Rightarrow> char_class \<Rightarrow> int" where
  "score_password password min_len symbols_pat =
     (let score = 0;
          score = (if int (length password) \<ge> min_len then score + 1 else score);
          score = (if re_search UPPER password then score + 1 else score);
          score = (if re_search LOWER password then score + 1 else score);
          score = (if re_search DIGIT password then score + 1 else score);
          score = (if re_search symbols_pat password then score + 1 else score)
      in score)"

definition score_password_default :: "pystr \<Rightarrow> int" where
  "score_password_default password = score_password password 8 SYMBOLS"

definition rating_from_score :: "int \<Rightarrow> string" where
  "rating_from_score score =
     (if score = 5 then ''Strong''
      else if score \<ge> 3 then ''Medium''
      else ''Weak'')"

section \<open>The inline score and rating of version 1.0\<close>

text \<open>
  Version 1.0 has no functions: the score is computed inline (twice, with the same
  text), the rating is shown by an \<open>if\<close>/\<open>elif\<close>/\<open>else\<close> on the score and written to
  the log by a conditional expression.
\<close>

definition v1_score :: "pystr \<Rightarrow> int" where
  "v1_score password =
     (let score = 0;
          score = (if length password \<ge> 8 then score + 1 else score);
          score = (if re_search UPPER password then score + 1 else score);
          score = (if re_search LOWER password then score + 1 else score);
          score = (if re_search DIGIT password then score + 1 else score);
          score = (if re_search SYMBOLS password then score + 1 else score)
      in score)"

definition v1_log_rating :: "int \<Rightarrow> string" where
  "v1_log_rating score =
     (if score = 5 then ''Strong'' else (if score \<ge> 3 then ''Medium'' else ''Weak''))"

section \<open>Character classes, unfolded\<close>

lemma re_search_UPPER: "re_search UPPER s \<longleftrightarrow> (\<exists>c\<in>set s. 65 \<le> c \<and> c \<le> 90)"
  by (simp add: re_search_def in_class_def UPPER_def list_ex_iff)

lemma re_search_LOWER: "re_search LOWER s \<longleftrightarrow> (\<exists>c\<in>set s. 97 \<le> c \<and> c \<le> 122)"
  by (simp add: re_search_def in_class_def LOWER_def list_ex_iff)

lemma re_search_DIGIT: "re_search DIGIT s \<longleftrightarrow> (\<exists>c\<in>set s. 48 \<le> c \<and> c \<le> 57)"
  by (simp add: re_search_def in_class_def DIGIT_def list_ex_iff)

lemma SYMBOLS_eq:
  "SYMBOLS = [(64, 64), (36, 36), (33, 33), (37, 37), (42, 42), (63, 63), (38, 38)]"
  by (simp add: SYMBOLS_def)

lemma range_single: "(a \<le> c \<and> c \<le> a) \<longleftrightarrow> c = (a::nat)"
  by auto

lemma in_class_SYMBOLS: "in_class SYMBOLS c \<longleftrightarrow> c \<in> {64, 36, 33, 37, 42, 63, 38}"
  unfolding SYMBOLS_eq in_class_def by (simp add: range_single)

lemma re_search_SYMBOLS:
  "re_search SYMBOLS s \<longleftrightarrow> (\<exists>c\<in>set s. c \<in> {64, 36, 33, 37, 42, 63, 38})"
  unfolding re_search_def list_ex_iff in_class_SYMBOLS ..

lemmas re_search_unfold =
  re_search_UPPER re_search_LOWER re_search_DIGIT re_search_SYMBOLS

lemma int_length_ge: "(8 \<le> int (length p)) \<longleftrightarrow> 8 \<le> length p"
  by simp

lemma score_steps:
  "(let score = 0;
        score = (if a then score + 1 else score);
        score = (if b then score + 1 else score);
        score = (if c then score + 1 else score);
        score = (if d then score + 1 else score);
        score = (if e then score + 1 else score)
    in score) = (of_bool a + of_bool b + of_bool c + of_bool d + of_bool e :: int)"
  by (cases a; cases b; cases c; cases d; cases e; simp)

lemma of_bool_sum_range:
  "0 \<le> (of_bool a + of_bool b + of_bool c + of_bool d + of_bool e :: int)
   \<and> (of_bool a + of_bool b + of_bool c + of_bool d + of_bool e :: int) \<le> 5"
  by (cases a; cases b; cases c; cases d; cases e; simp)

lemma v1_score_eq: "v1_score p = score_password_default p"
  by (simp add: v1_score_def score_password_default_def score_password_def Let_def)

section \<open>The terminal, the clock and the log file\<close>

text \<open>
  The program talks to a terminal. Each call of \<open>getpass.getpass\<close> or \<open>input\<close>
  either returns the line typed (\<open>Line\<close>) or raises: \<open>Interrupted\<close> stands for
  the two exceptions the program names together, \<open>EOFError\<close> and
  \<open>KeyboardInterrupt\<close>, and \<open>OtherError\<close> for any other exception. What the user
  will do is the list of these results still to come (\<open>stdin\<close> of the world below).
\<close>

datatype exn = Interrupted | OtherError

datatype read_result = Line pystr | Raise exn

datatype prompt = PasswordPrompt | RetryPrompt | AnotherPrompt

text \<open>
  Everything printed is recorded, in order, as a value of \<open>msg\<close>: one constructor
  for each \<open>print\<close> of the two scripts (the three lines of the banner are one
  message), with the numbers and labels the format strings insert. The wording,
  colours and emoji of a message are not kept. \<open>Prompt\<close> is the prompt a read
  shows; \<open>MsgSpinner\<close> is the whole spinner animation, whose number of frames
  depends on elapsed time only; the constructors \<open>V1...\<close> are messages whose
  wording in version 1.0 differs from version 2.0. \<open>MsgScoreFire\<close> and
  \<open>MsgScoreWarn\<close> are the two score lines (the green one of a success, the yellow
  one with the warning sign).
\<close>

datatype msg =
    Prompt prompt
  | MsgBanner
  | MsgInterrupted
  | MsgFallback
  | MsgInterruptedYN
  | MsgNotYesNo
  | MsgEmpty
  | MsgChecking
  | MsgSpinner
  | MsgTooShort
  | MsgNoUpper
  | MsgNoLower
  | MsgNoDigit
  | MsgNoSymbol
  | MsgHurray int
  | MsgScoreFire int string
  | MsgScoreWarn int string
  | MsgLogSaved
  | MsgAllDone
  | MsgThanks int
  | MsgBlank
  | MsgBye
  | V1Interrupted
  | V1Fallback
  | V1NotYesNo

text \<open>
  \<open>datetime.now()\<close> returns a naive local time; its \<open>isoformat()\<close> is
  \<open>YYYY-MM-DDTHH:MM:SS\<close>, followed by \<open>.ffffff\<close> when the microsecond is not 0.
\<close>

record datetime =
  dt_year :: nat
  dt_month :: nat
  dt_day :: nat
  dt_hour :: nat
  dt_minute :: nat
  dt_second :: nat
  dt_microsecond :: nat

text \<open>
  The state the program acts on: the reads still to come, the messages printed so far,
  the lines written so far to \<open>~/Documents/PasswordChecker/password_log.txt\<close> (the
  only file name the program ever passes to \<open>log_attempt\<close>), and the system clock, a
  sequence of readings of which \<open>ticks\<close> have been taken. Creating the directory and
  opening the file are taken to succeed: a failure there is an \<open>OSError\<close> that no
  part of the program handles.
\<close>

record world =
  stdin :: "read_result list"
  stdout :: "msg list"
  logfile :: "string list"
  clock :: "nat \<Rightarrow> datetime"
  ticks :: nat

text \<open>
  A function that reads from the terminal returns a value, lets an exception escape, or
  is still waiting for the user when the given input is used up (\<open>Blocked\<close>). Every
  loop of the program reads at least once in each iteration, so on a finite list of
  reads every function below is total, by recursion on the input that is left.
\<close>

datatype 'a outcome = Returned 'a | Raised exn | Blocked

definition emit :: "msg \<Rightarrow> world \<Rightarrow> world" where
  "emit m w = w\<lparr>stdout := stdout w @ [m]\<rparr>"

text \<open>
  One read, by \<open>getpass.getpass(prompt)\<close> or \<open>input(prompt)\<close>: the prompt is shown
  and the next result is taken.
\<close>

definition read_term :: "prompt \<Rightarrow> world \<Rightarrow> read_result option \<times> world" where
  "read_term p w =
     (case stdin w of
        [] \<Rightarrow> (None, emit (Prompt p) w)
      | r # rest \<Rightarrow> (Some r, (emit (Prompt p) w)\<lparr>stdin := rest\<rparr>))"

definition py_getpass :: "prompt \<Rightarrow> world \<Rightarrow> read_result option \<times> world" where
  "py_getpass = read_term"

definition py_input :: "prompt \<Rightarrow> world \<Rightarrow> read_result option \<times> world" where
  "py_input = read_term"

text \<open>
  Formatting: \<open>str\<close> of an integer as an f-string inserts it, zero padding as
  \<open>%02d\<close> does, and \<open>datetime.isoformat\<close>.
\<close>

fun str_nat :: "nat \<Rightarrow> string" where
  "str_nat n =
     (if n < 10 then [''0123456789'' ! n]
      else str_nat (n div 10) @ [''0123456789'' ! (n mod 10)])"

declare str_nat.simps [simp del]

definition str_int :: "int \<Rightarrow> string" where
  "str_int i = (if i < 0 then ''-'' @ str_nat (nat (- i)) else str_nat (nat i))"

definition zpad :: "nat \<Rightarrow> nat \<Rightarrow> string" where
  "zpad width n = (let s = str_nat n in replicate (width - length s) CHR ''0'' @ s)"

definition isoformat :: "datetime \<Rightarrow> string" where
  "isoformat d =
     zpad 4 (dt_year d) @ ''-'' @ zpad 2 (dt_month d) @ ''-'' @ zpad 2 (dt_day d) @ ''T''
     @ zpad 2 (dt_hour d) @ '':'' @ zpad 2 (dt_minute d) @ '':'' @ zpad 2 (dt_second d)
     @ (if dt_microsecond d \<noteq> 0 then ''.'' @ zpad 6 (dt_microsecond d) else [])"

definition datetime_now :: "world \<Rightarrow> datetime \<times> world" where
  "datetime_now w = (clock w (ticks w), w\<lparr>ticks := ticks w + 1\<rparr>)"

text \<open>
  \<open>log_attempt(attempts, score, rating)\<close> opens the log in append mode, writes one
  formatted line ending in a newline, and prints where the log was saved.
\<close>

definition log_line :: "datetime \<Rightarrow> int \<Rightarrow> int \<Rightarrow> string \<Rightarrow> string" where
  "log_line now attempts score rating =
     isoformat now @ '' | attempts='' @ str_int attempts @ '' | score='' @ str_int score
     @ ''/5 | rating='' @ rating @ [CHR 0x0A]"

definition log_attempt :: "int \<Rightarrow> int \<Rightarrow> string \<Rightarrow> world \<Rightarrow> world" where
  "log_attempt attempts score rating w =
     (case datetime_now w of
        (now, w1) \<Rightarrow>
          emit MsgLogSaved (w1\<lparr>logfile := logfile w1 @ [log_line now attempts score rating]\<rparr>))"

lemma stdin_emit [simp]: "stdin (emit m w) = stdin w"
  by (simp add: emit_def)

lemma read_term_shorter:
  "read_term p w = (Some r, w1) \<Longrightarrow> length (stdin w1) < length (stdin w)"
  by (auto simp add: read_term_def split: list.splits)

section \<open>Input handlers (version 2.0)\<close>

text \<open>
  \<open>safe_getpass(prompt)\<close>: hidden input; an interrupt prints a notice and asks
  again; any other exception switches to visible input for one read, where an interrupt
  again leads back to the hidden read and any other exception escapes.
\<close>

function safe_getpass :: "prompt \<Rightarrow> world \<Rightarrow> pystr outcome \<times> world" where
  "safe_getpass p w =
     (case py_getpass p w of
        (None, w1) \<Rightarrow> (Blocked, w1)
      | (Some (Line s), w1) \<Rightarrow> (Returned s, w1)
      | (Some (Raise Interrupted), w1) \<Rightarrow> safe_getpass p (emit MsgInterrupted w1)
      | (Some (Raise OtherError), w1) \<Rightarrow>
          (case py_input p (emit MsgFallback w1) of
             (None, w2) \<Rightarrow> (Blocked, w2)
           | (Some (Line s), w2) \<Rightarrow> (Returned s, w2)
           | (Some (Raise Interrupted), w2) \<Rightarrow> safe_getpass p (emit MsgInterrupted w2)
           | (Some (Raise OtherError), w2) \<Rightarrow> (Raised OtherError, w2)))"
  by pat_completeness auto
termination
proof (relation "measure (\<lambda>(p, w). length (stdin w))")
  show "wf (measure (\<lambda>(p, w). length (stdin w)))" by simp
next
  fix p w x1 w1 r e
  assume "(x1, w1) = py_getpass p w" "x1 = Some r" "r = Raise e" "e = Interrupted"
  then show "((p, emit MsgInterrupted w1), (p, w)) \<in> measure (\<lambda>(p, w). length (stdin w))"
    using read_term_shorter [of p w r w1] by (simp add: py_getpass_def)
next
  fix p w x1 w1 r e x2 w2 r2 e2
  assume "(x1, w1) = py_getpass p w" "x1 = Some r"
    and "(x2, w2) = py_input p (emit MsgFallback w1)" "x2 = Some r2"
  then show "((p, emit MsgInterrupted w2), (p, w)) \<in> measure (\<lambda>(p, w). length (stdin w))"
    using read_term_shorter [of p w r w1] read_term_shorter [of p "emit MsgFallback w1" r2 w2]
    by (simp add: py_getpass_def py_input_def)
qed

declare safe_getpass.simps [simp del]

text \<open>
  One step of each function for each way the input can begin. \<open>consume p w\<close> is the
  world after a read that showed prompt \<open>p\<close> and took the first pending result.
\<close>

definition consume :: "prompt \<Rightarrow> world \<Rightarrow> world" where
  "consume p w = (emit (Prompt p) w)\<lparr>stdin := tl (stdin w)\<rparr>"

lemma stdin_consume [simp]: "stdin (consume p w) = tl (stdin w)"
  by (simp add: consume_def)

lemma read_term_Nil: "stdin w = [] \<Longrightarrow> read_term p w = (None, emit (Prompt p) w)"
  by (simp add: read_term_def)

lemma read_term_Cons: "stdin w = r # rest \<Longrightarrow> read_term p w = (Some r, consume p w)"
  by (simp add: read_term_def consume_def)

lemma safe_getpass_Nil:
  "stdin w = [] \<Longrightarrow> safe_getpass p w = (Blocked, emit (Prompt p) w)"
  by (subst safe_getpass.simps) (simp add: py_getpass_def read_term_Nil)

lemma safe_getpass_Line:
  "stdin w = Line s # rest \<Longrightarrow> safe_getpass p w = (Returned s, consume p w)"
  by (subst safe_getpass.simps) (simp add: py_getpass_def read_term_Cons)

lemma safe_getpass_Interrupted:
  "stdin w = Raise Interrupted # rest \<Longrightarrow>
     safe_getpass p w = safe_getpass p (emit MsgInterrupted (consume p w))"
  by (subst safe_getpass.simps) (simp add: py_getpass_def read_term_Cons)

lemma safe_getpass_Other_Nil:
  "stdin w = [Raise OtherError] \<Longrightarrow>
     safe_getpass p w = (Blocked, emit (Prompt p) (emit MsgFallback (consume p w)))"
  by (subst safe_getpass.simps) (simp add: py_getpass_def py_input_def read_term_Cons read_term_Nil)

lemma safe_getpass_Other_Line:
  "stdin w = Raise OtherError # Line s # rest \<Longrightarrow>
     safe_getpass p w = (Returned s, consume p (emit MsgFallback (consume p w)))"
  by (subst safe_getpass.simps) (simp add: py_getpass_def py_input_def read_term_Cons)

lemma safe_getpass_Other_Interrupted:
  "stdin w = Raise OtherError # Raise Interrupted # rest \<Longrightarrow>
     safe_getpass p w =
       safe_getpass p (emit MsgInterrupted (consume p (emit MsgFallback (consume p w))))"
  by (subst safe_getpass.simps) (simp add: py_getpass_def py_input_def read_term_Cons)

lemma safe_getpass_Other_Other:
  "stdin w = Raise OtherError # Raise OtherError # rest \<Longrightarrow>
     safe_getpass p w = (Raised OtherError, consume p (emit MsgFallback (consume p w)))"
  by (subst safe_getpass.simps) (simp add: py_getpass_def py_input_def read_term_Cons)

lemmas safe_getpass_steps =
  safe_getpass_Nil safe_getpass_Line safe_getpass_Interrupted safe_getpass_Other_Nil
  safe_getpass_Other_Line safe_getpass_Other_Interrupted safe_getpass_Other_Other

text \<open>The shapes an input script can start with, as \<open>safe_getpass\<close> reads it.\<close>

lemma script_cases:
  obtains "ins = []"
  | s rest where "ins = Line s # rest"
  | rest where "ins = Raise Interrupted # rest"
  | "ins = [Raise OtherError]"
  | s rest where "ins = Raise OtherError # Line s # rest"
  | rest where "ins = Raise OtherError # Raise Interrupted # rest"
  | rest where "ins = Raise OtherError # Raise OtherError # rest"
proof (cases ins)
  case Nil
  then show ?thesis using that by blast
next
  case (Cons r rest)
  show ?thesis
  proof (cases r)
    case (Line s)
    with Cons show ?thesis using that by blast
  next
    case (Raise e)
    show ?thesis
    proof (cases e)
      case Interrupted
      with Cons Raise show ?thesis using that by blast
    next
      case OtherError
      show ?thesis
      proof (cases rest)
        case Nil
        with Cons Raise OtherError show ?thesis using that by blast
      next
        case (Cons r2 rest2)
        note c2 = Cons
        show ?thesis
        proof (cases r2)
          case (Line s)
          with c2 \<open>ins = r # rest\<close> Raise OtherError show ?thesis using that by blast
        next
          case (Raise e2)
          with c2 \<open>ins = r # rest\<close> \<open>r = Raise e\<close> OtherError show ?thesis
            using that by (cases e2) blast+
        qed
      qed
    qed
  qed
qed

lemma safe_getpass_shorter:
  "safe_getpass p w = (Returned s, w1) \<Longrightarrow> length (stdin w1) < length (stdin w)"
proof (induction "length (stdin w)" arbitrary: w rule: less_induct)
  case less
  show ?case
  proof (cases "stdin w" rule: script_cases)
    case 1
    with less.prems show ?thesis by (simp add: safe_getpass_Nil)
  next
    case (2 s' rest)
    with less.prems show ?thesis by (auto simp add: safe_getpass_Line)
  next
    case (3 rest)
    have "length (stdin w1) < length (stdin (emit MsgInterrupted (consume p w)))"
      using less.prems 3 by (intro less.hyps) (simp_all add: safe_getpass_Interrupted)
    with 3 show ?thesis by simp
  next
    case 4
    with less.prems show ?thesis by (simp add: safe_getpass_Other_Nil)
  next
    case (5 s' rest)
    with less.prems show ?thesis by (auto simp add: safe_getpass_Other_Line)
  next
    case (6 rest)
    have "length (stdin w1)
        < length (stdin (emit MsgInterrupted (consume p (emit MsgFallback (consume p w)))))"
      using less.prems 6 by (intro less.hyps) (simp_all add: safe_getpass_Other_Interrupted)
    with 6 show ?thesis by simp
  next
    case (7 rest)
    with less.prems show ?thesis by (simp add: safe_getpass_Other_Other)
  qed
qed

text \<open>
  \<open>ask_yes_no(prompt)\<close>: the answer is stripped and lowercased; y or yes returns
  \<open>True\<close>, n or no returns \<open>False\<close>, anything else prints a notice and asks again,
  as does an interrupt. Another exception of \<open>input\<close> is not caught.
\<close>

definition valid_yes :: "pystr set" where
  "valid_yes = {ustr ''y'', ustr ''yes''}"

definition valid_no :: "pystr set" where
  "valid_no = {ustr ''n'', ustr ''no''}"

function ask_yes_no :: "(pystr \<Rightarrow> pystr) \<Rightarrow> prompt \<Rightarrow> world \<Rightarrow> bool outcome \<times> world" where
  "ask_yes_no ucd p w =
     (case py_input p w of
        (None, w1) \<Rightarrow> (Blocked, w1)
      | (Some (Raise Interrupted), w1) \<Rightarrow> ask_yes_no ucd p (emit MsgInterruptedYN w1)
      | (Some (Raise OtherError), w1) \<Rightarrow> (Raised OtherError, w1)
      | (Some (Line ans), w1) \<Rightarrow>
          (let ans_norm = py_lower ucd (py_strip ans) in
           if ans_norm \<in> valid_yes then (Returned True, w1)
           else if ans_norm \<in> valid_no then (Returned False, w1)
           else ask_yes_no ucd p (emit MsgNotYesNo w1)))"
  by pat_completeness auto
termination
  apply (relation "measure (\<lambda>(ucd, p, w). length (stdin w))")
  apply simp
  apply (auto simp add: py_input_def dest: read_term_shorter [OF sym])
  done

declare ask_yes_no.simps [simp del]

definition norm_answer :: "(pystr \<Rightarrow> pystr) \<Rightarrow> pystr \<Rightarrow> pystr" where
  "norm_answer ucd ans = py_lower ucd (py_strip ans)"

lemma ask_yes_no_Nil:
  "stdin w = [] \<Longrightarrow> ask_yes_no ucd p w = (Blocked, emit (Prompt p) w)"
  by (subst ask_yes_no.simps) (simp add: py_input_def read_term_Nil)

lemma ask_yes_no_Interrupted:
  "stdin w = Raise Interrupted # rest \<Longrightarrow>
     ask_yes_no ucd p w = ask_yes_no ucd p (emit MsgInterruptedYN (consume p w))"
  by (subst ask_yes_no.simps) (simp add: py_input_def read_term_Cons)

lemma ask_yes_no_Other:
  "stdin w = Raise OtherError # rest \<Longrightarrow>
     ask_yes_no ucd p w = (Raised OtherError, consume p w)"
  by (subst ask_yes_no.simps) (simp add: py_input_def read_term_Cons)

lemma ask_yes_no_Line:
  "stdin w = Line ans # rest \<Longrightarrow>
     ask_yes_no ucd p w =
       (if norm_answer ucd ans \<in> valid_yes then (Returned True, consume p w)
        else if norm_answer ucd ans \<in> valid_no then (Returned False, consume p w)
        else ask_yes_no ucd p (emit MsgNotYesNo (consume p w)))"
  by (subst ask_yes_no.simps) (simp add: py_input_def read_term_Cons norm_answer_def Let_def)

lemma ask_yes_no_shorter:
  "ask_yes_no ucd p w = (Returned b, w1) \<Longrightarrow> length (stdin w1) < length (stdin w)"
proof (induction "length (stdin w)" arbitrary: w rule: less_induct)
  case less
  show ?case
  proof (cases "stdin w")
    case Nil
    with less.prems show ?thesis by (simp add: ask_yes_no_Nil)
  next
    case (Cons r rest)
    show ?thesis
    proof (cases r)
      case (Line ans)
      show ?thesis
      proof (cases "norm_answer ucd ans \<in> valid_yes \<or> norm_answer ucd ans \<in> valid_no")
        case True
        with less.prems Cons Line show ?thesis
          by (auto simp add: ask_yes_no_Line split: if_splits)
      next
        case False
        have "length (stdin w1) < length (stdin (emit MsgNotYesNo (consume p w)))"
          using less.prems Cons Line False
          by (intro less.hyps) (simp_all add: ask_yes_no_Line)
        with Cons show ?thesis by simp
      qed
    next
      case (Raise e)
      show ?thesis
      proof (cases e)
        case Interrupted
        have "length (stdin w1) < length (stdin (emit MsgInterruptedYN (consume p w)))"
          using less.prems Cons Raise Interrupted
          by (intro less.hyps) (simp_all add: ask_yes_no_Interrupted)
        with Cons show ?thesis by simp
      next
        case OtherError
        with less.prems Cons Raise show ?thesis by (simp add: ask_yes_no_Other)
      qed
    qed
  qed
qed

section \<open>The session loop (version 2.0)\<close>

text \<open>
  \<open>run_password_check()\<close>: the loop of one session, with \<open>attempts\<close> as its
  variable. The \<open>if\<close>/\<open>elif\<close> chain prints one message for the first test that
  fails (\<open>validation_chain\<close>, \<open>None\<close> for the \<open>else\<close> branch); the same chain,
  with the same tests in the same order, is in version 1.0.
\<close>

definition spinner :: "world \<Rightarrow> world" where
  "spinner w = emit MsgSpinner w"

definition validation_chain :: "pystr \<Rightarrow> msg option" where
  "validation_chain password =
     (if length password < 8 then Some MsgTooShort
      else if \<not> re_search UPPER password then Some MsgNoUpper
      else if \<not> re_search LOWER password then Some MsgNoLower
      else if \<not> re_search DIGIT password then Some MsgNoDigit
      else if \<not> re_search SYMBOLS password then Some MsgNoSymbol
      else None)"

lemma stdin_spinner [simp]: "stdin (spinner w) = stdin w"
  by (simp add: spinner_def)

lemma stdin_log_attempt [simp]: "stdin (log_attempt a s r w) = stdin w"
  by (simp add: log_attempt_def datetime_now_def emit_def)

function check_loop :: "(pystr \<Rightarrow> pystr) \<Rightarrow> int \<Rightarrow> world \<Rightarrow> unit outcome \<times> world" where
  "check_loop ucd attempts w =
     (case safe_getpass PasswordPrompt w of
        (Blocked, w1) \<Rightarrow> (Blocked, w1)
      | (Raised e, w1) \<Rightarrow> (Raised e, w1)
      | (Returned password, w1) \<Rightarrow>
          if py_strip password = [] then check_loop ucd attempts (emit MsgEmpty w1)
          else
            (let attempts = attempts + 1;
                 w2 = spinner (emit MsgChecking w1)
             in case validation_chain password of
                  None \<Rightarrow>
                    (let score = score_password_default password;
                         rating = rating_from_score score;
                         w3 = emit (MsgHurray attempts) w2;
                         w4 = emit (MsgScoreFire score rating) w3;
                         w5 = log_attempt attempts score rating w4;
                         w6 = emit MsgAllDone w5
                     in (Returned (), w6))
                | Some reason \<Rightarrow>
                    (let w3 = emit reason w2;
                         score = score_password_default password;
                         rating = rating_from_score score;
                         w4 = emit (MsgScoreWarn score rating) w3
                     in case ask_yes_no ucd RetryPrompt w4 of
                          (Blocked, w5) \<Rightarrow> (Blocked, w5)
                        | (Raised e, w5) \<Rightarrow> (Raised e, w5)
                        | (Returned retry_yes, w5) \<Rightarrow>
                            if \<not> retry_yes then
                              (let w6 = emit MsgAllDone w5;
                                   w7 = emit (MsgThanks attempts) w6;
                                   w8 = log_attempt attempts score rating w7
                               in (Returned (), w8))
                            else check_loop ucd attempts (emit MsgBlank w5))))"
  by pat_completeness auto
termination
proof (relation "measure (\<lambda>(ucd, a, w). length (stdin w))")
  show "wf (measure (\<lambda>(ucd, a, w). length (stdin w)))" by simp
next
  fix ucd :: "pystr \<Rightarrow> pystr" and attempts :: int and w x1 w1 password
  assume "(x1, w1) = safe_getpass PasswordPrompt w" "x1 = Returned password"
  then show "((ucd, attempts, emit MsgEmpty w1), (ucd, attempts, w))
      \<in> measure (\<lambda>(ucd, a, w). length (stdin w))"
    using safe_getpass_shorter [of PasswordPrompt w password w1] by simp
next
  fix ucd :: "pystr \<Rightarrow> pystr" and attempts :: int and w x1 w1 password a' w2 reason w3 sc rt w4 x5 w5 retry_yes
  assume "(x1, w1) = safe_getpass PasswordPrompt w" "x1 = Returned password"
    and "w2 = spinner (emit MsgChecking w1)" "w3 = emit reason w2"
    and "w4 = emit (MsgScoreWarn sc rt) w3"
    and "(x5, w5) = ask_yes_no ucd RetryPrompt w4" "x5 = Returned retry_yes"
  then show "((ucd, a', emit MsgBlank w5), (ucd, attempts, w))
      \<in> measure (\<lambda>(ucd, a, w). length (stdin w))"
    using safe_getpass_shorter [of PasswordPrompt w password w1]
      ask_yes_no_shorter [of ucd RetryPrompt w4 retry_yes w5] by simp
qed

declare check_loop.simps [simp del]

lemma stdout_emit [simp]: "stdout (emit m w) = stdout w @ [m]"
  and logfile_emit [simp]: "logfile (emit m w) = logfile w"
  and clock_emit [simp]: "clock (emit m w) = clock w"
  and ticks_emit [simp]: "ticks (emit m w) = ticks w"
  by (simp_all add: emit_def)

lemma stdout_consume [simp]: "stdout (consume p w) = stdout w @ [Prompt p]"
  and logfile_consume [simp]: "logfile (consume p w) = logfile w"
  and clock_consume [simp]: "clock (consume p w) = clock w"
  and ticks_consume [simp]: "ticks (consume p w) = ticks w"
  by (simp_all add: consume_def emit_def)

lemma stdout_spinner [simp]: "stdout (spinner w) = stdout w @ [MsgSpinner]"
  and logfile_spinner [simp]: "logfile (spinner w) = logfile w"
  and clock_spinner [simp]: "clock (spinner w) = clock w"
  and ticks_spinner [simp]: "ticks (spinner w) = ticks w"
  by (simp_all add: spinner_def)

lemma stdout_log_attempt [simp]: "stdout (log_attempt a s r w) = stdout w @ [MsgLogSaved]"
  and logfile_log_attempt [simp]:
    "logfile (log_attempt a s r w) = logfile w @ [log_line (clock w (ticks w)) a s r]"
  and clock_log_attempt [simp]: "clock (log_attempt a s r w) = clock w"
  and ticks_log_attempt [simp]: "ticks (log_attempt a s r w) = ticks w + 1"
  by (simp_all add: log_attempt_def datetime_now_def emit_def)

lemma check_loop_Blocked:
  "safe_getpass PasswordPrompt w = (Blocked, w1) \<Longrightarrow> check_loop ucd a w = (Blocked, w1)"
  by (subst check_loop.simps) simp

lemma check_loop_Raised:
  "safe_getpass PasswordPrompt w = (Raised e, w1) \<Longrightarrow> check_loop ucd a w = (Raised e, w1)"
  by (subst check_loop.simps) simp

lemma check_loop_blank:
  "safe_getpass PasswordPrompt w = (Returned pw, w1) \<Longrightarrow> py_strip pw = [] \<Longrightarrow>
     check_loop ucd a w = check_loop ucd a (emit MsgEmpty w1)"
  by (subst check_loop.simps) simp

lemma check_loop_success:
  "safe_getpass PasswordPrompt w = (Returned pw, w1) \<Longrightarrow> py_strip pw \<noteq> [] \<Longrightarrow>
   validation_chain pw = None \<Longrightarrow>
     check_loop ucd a w =
       (Returned (),
        emit MsgAllDone
          (log_attempt (a + 1) (score_password_default pw)
             (rating_from_score (score_password_default pw))
             (emit (MsgScoreFire (score_password_default pw)
                      (rating_from_score (score_password_default pw)))
                (emit (MsgHurray (a + 1)) (spinner (emit MsgChecking w1))))))"
  by (subst check_loop.simps) (simp add: Let_def)

definition failed_world :: "pystr \<Rightarrow> msg \<Rightarrow> world \<Rightarrow> world" where
  "failed_world pw reason w1 =
     emit (MsgScoreWarn (score_password_default pw)
             (rating_from_score (score_password_default pw)))
       (emit reason (spinner (emit MsgChecking w1)))"

lemma check_loop_failure_Blocked:
  "safe_getpass PasswordPrompt w = (Returned pw, w1) \<Longrightarrow> py_strip pw \<noteq> [] \<Longrightarrow>
   validation_chain pw = Some reason \<Longrightarrow>
   ask_yes_no ucd RetryPrompt (failed_world pw reason w1) = (Blocked, w5) \<Longrightarrow>
     check_loop ucd a w = (Blocked, w5)"
  by (subst check_loop.simps) (simp add: Let_def failed_world_def)

lemma check_loop_failure_Raised:
  "safe_getpass PasswordPrompt w = (Returned pw, w1) \<Longrightarrow> py_strip pw \<noteq> [] \<Longrightarrow>
   validation_chain pw = Some reason \<Longrightarrow>
   ask_yes_no ucd RetryPrompt (failed_world pw reason w1) = (Raised e, w5) \<Longrightarrow>
     check_loop ucd a w = (Raised e, w5)"
  by (subst check_loop.simps) (simp add: Let_def failed_world_def)

lemma check_loop_failure_no:
  "safe_getpass PasswordPrompt w = (Returned pw, w1) \<Longrightarrow> py_strip pw \<noteq> [] \<Longrightarrow>
   validation_chain pw = Some reason \<Longrightarrow>
   ask_yes_no ucd RetryPrompt (failed_world pw reason w1) = (Returned False, w5) \<Longrightarrow>
     check_loop ucd a w =
       (Returned (),
        log_attempt (a + 1) (score_password_default pw)
          (rating_from_score (score_password_default pw))
          (emit (MsgThanks (a + 1)) (emit MsgAllDone w5)))"
  by (subst check_loop.simps) (simp add: Let_def failed_world_def)

lemma check_loop_failure_yes:
  "safe_getpass PasswordPrompt w = (Returned pw, w1) \<Longrightarrow> py_strip pw \<noteq> [] \<Longrightarrow>
   validation_chain pw = Some reason \<Longrightarrow>
   ask_yes_no ucd RetryPrompt (failed_world pw reason w1) = (Returned True, w5) \<Longrightarrow>
     check_loop ucd a w = check_loop ucd (a + 1) (emit MsgBlank w5)"
  by (subst check_loop.simps) (simp add: Let_def failed_world_def)

definition run_password_check :: "(pystr \<Rightarrow> pystr) \<Rightarrow> world \<Rightarrow> unit outcome \<times> world" where
  "run_password_check ucd w = check_loop ucd 0 w"

section \<open>The input loops of version 1.0\<close>

text \<open>
  Version 1.0 is a script without functions. Its password read is a loop of the same
  shape as \<open>safe_getpass\<close>; its retry question is an inline loop around an
  \<open>input\<close> that is not inside any \<open>try\<close>, so every exception of that read
  escapes; on the answer no it writes the log itself and raises \<open>SystemExit(0)\<close>. The
  script ends either by running past its last line after \<open>break\<close> or by that exit.
\<close>

datatype v1_end = EndOfScript | SystemExit int

function v1_getpass_loop :: "world \<Rightarrow> pystr outcome \<times> world" where
  "v1_getpass_loop w =
     (case py_getpass PasswordPrompt w of
        (None, w1) \<Rightarrow> (Blocked, w1)
      | (Some (Line password), w1) \<Rightarrow> (Returned password, w1)
      | (Some (Raise Interrupted), w1) \<Rightarrow> v1_getpass_loop (emit V1Interrupted w1)
      | (Some (Raise OtherError), w1) \<Rightarrow>
          (case py_input PasswordPrompt (emit V1Fallback w1) of
             (None, w2) \<Rightarrow> (Blocked, w2)
           | (Some (Line password), w2) \<Rightarrow> (Returned password, w2)
           | (Some (Raise Interrupted), w2) \<Rightarrow> v1_getpass_loop (emit V1Interrupted w2)
           | (Some (Raise OtherError), w2) \<Rightarrow> (Raised OtherError, w2)))"
  by pat_completeness auto
termination
proof (relation "measure (\<lambda>w. length (stdin w))")
  show "wf (measure (\<lambda>w. length (stdin w)))" by simp
next
  fix w x1 w1 r e
  assume "(x1, w1) = py_getpass PasswordPrompt w" "x1 = Some r"
  then show "(emit V1Interrupted w1, w) \<in> measure (\<lambda>w. length (stdin w))"
    using read_term_shorter [of PasswordPrompt w r w1] by (simp add: py_getpass_def)
next
  fix w x1 w1 r x2 w2 r2
  assume "(x1, w1) = py_getpass PasswordPrompt w" "x1 = Some r"
    and "(x2, w2) = py_input PasswordPrompt (emit V1Fallback w1)" "x2 = Some r2"
  then show "(emit V1Interrupted w2, w) \<in> measure (\<lambda>w. length (stdin w))"
    using read_term_shorter [of PasswordPrompt w r w1]
      read_term_shorter [of PasswordPrompt "emit V1Fallback w1" r2 w2]
    by (simp add: py_getpass_def py_input_def)
qed

declare v1_getpass_loop.simps [simp del]

definition v1_show_rating :: "int \<Rightarrow> msg" where
  "v1_show_rating score =
     (if score < 3 then MsgScoreWarn score ''Weak''
      else if score \<in> {3, 4} then MsgScoreWarn score ''Medium''
      else MsgScoreFire score ''Strong'')"

definition v1_write_log :: "int \<Rightarrow> int \<Rightarrow> world \<Rightarrow> world" where
  "v1_write_log attempts score w =
     (case datetime_now w of
        (now, w1) \<Rightarrow>
          emit MsgLogSaved
            (w1\<lparr>logfile := logfile w1 @ [log_line now attempts score (v1_log_rating score)]\<rparr>))"

function v1_retry_loop :: "(pystr \<Rightarrow> pystr) \<Rightarrow> int \<Rightarrow> int \<Rightarrow> world \<Rightarrow> bool outcome \<times> world" where
  "v1_retry_loop ucd attempts score w =
     (case py_input RetryPrompt w of
        (None, w1) \<Rightarrow> (Blocked, w1)
      | (Some (Raise e), w1) \<Rightarrow> (Raised e, w1)
      | (Some (Line ans), w1) \<Rightarrow>
          (let retry = py_lower ucd (py_strip ans) in
           if retry \<in> {ustr ''y'', ustr ''yes''} then (Returned True, emit MsgBlank w1)
           else if retry \<in> {ustr ''n'', ustr ''no''} then
             (let w2 = emit MsgAllDone w1;
                  w3 = emit (MsgThanks attempts) w2;
                  w4 = v1_write_log attempts score w3
              in (Returned False, w4))
           else v1_retry_loop ucd attempts score (emit V1NotYesNo w1)))"
  by pat_completeness auto
termination
  apply (relation "measure (\<lambda>(ucd, a, s, w). length (stdin w))")
  apply simp
  apply (auto simp add: py_input_def dest: read_term_shorter [OF sym])
  done

declare v1_retry_loop.simps [simp del]

section \<open>Frame conditions\<close>

text \<open>
  What a call may change. \<open>io_only\<close>: input is consumed from the front, output is
  appended, the log and the clock are untouched. \<open>extends\<close>: the log may grow and the
  clock may be read as well.
\<close>

definition io_only :: "world \<Rightarrow> world \<Rightarrow> bool" where
  "io_only w w' \<longleftrightarrow>
     suffix (stdin w') (stdin w) \<and> prefix (stdout w) (stdout w') \<and>
     logfile w' = logfile w \<and> clock w' = clock w \<and> ticks w' = ticks w"

definition extends :: "world \<Rightarrow> world \<Rightarrow> bool" where
  "extends w w' \<longleftrightarrow>
     suffix (stdin w') (stdin w) \<and> prefix (stdout w) (stdout w') \<and>
     prefix (logfile w) (logfile w') \<and> clock w' = clock w \<and> ticks w \<le> ticks w'"

lemma io_only_refl [simp]: "io_only w w"
  by (simp add: io_only_def)

lemma io_only_trans: "io_only w w1 \<Longrightarrow> io_only w1 w2 \<Longrightarrow> io_only w w2"
  by (auto simp add: io_only_def intro: suffix_order.trans prefix_order.trans)

lemma suffix_tl_self: "suffix (tl xs) xs"
  by (cases xs) (simp_all add: suffix_ConsI)

lemma io_only_emit: "io_only w w1 \<Longrightarrow> io_only w (emit m w1)"
  by (auto simp add: io_only_def intro: prefix_order.trans)

lemma io_only_consume: "io_only w w1 \<Longrightarrow> io_only w (consume p w1)"
  by (auto simp add: io_only_def intro: prefix_order.trans suffix_order.trans suffix_tl_self)

lemma io_only_extends: "io_only w w' \<Longrightarrow> extends w w'"
  by (simp add: io_only_def extends_def)

lemma extends_refl [simp]: "extends w w"
  by (simp add: extends_def)

lemma extends_trans: "extends w w1 \<Longrightarrow> extends w1 w2 \<Longrightarrow> extends w w2"
  by (auto simp add: extends_def intro: suffix_order.trans prefix_order.trans)

lemma extends_emit: "extends w w1 \<Longrightarrow> extends w (emit m w1)"
  by (auto simp add: extends_def intro: prefix_order.trans)

lemma extends_spinner: "extends w w1 \<Longrightarrow> extends w (spinner w1)"
  by (simp add: spinner_def extends_emit)

lemma extends_log_attempt: "extends w w1 \<Longrightarrow> extends w (log_attempt a s r w1)"
  by (auto simp add: extends_def intro: prefix_order.trans)

lemma extends_length: "extends w w' \<Longrightarrow> length (stdin w') \<le> length (stdin w)"
  by (auto simp add: extends_def dest: suffix_length_le)

lemma safe_getpass_io: "io_only w (snd (safe_getpass p w))"
proof (induction "length (stdin w)" arbitrary: w rule: less_induct)
  case less
  show ?case
  proof (cases "stdin w" rule: script_cases)
    case 1
    then show ?thesis by (simp add: safe_getpass_Nil io_only_emit)
  next
    case (2 s rest)
    then show ?thesis by (simp add: safe_getpass_Line io_only_consume)
  next
    case (3 rest)
    let ?w = "emit MsgInterrupted (consume p w)"
    have "io_only ?w (snd (safe_getpass p ?w))"
      using 3 by (intro less.hyps) simp
    moreover have "io_only w ?w"
      by (simp add: io_only_emit io_only_consume)
    ultimately show ?thesis
      using 3 by (simp add: safe_getpass_Interrupted) (rule io_only_trans)
  next
    case 4
    then show ?thesis by (simp add: safe_getpass_Other_Nil io_only_emit io_only_consume)
  next
    case (5 s rest)
    then show ?thesis by (simp add: safe_getpass_Other_Line io_only_emit io_only_consume)
  next
    case (6 rest)
    let ?w = "emit MsgInterrupted (consume p (emit MsgFallback (consume p w)))"
    have "io_only ?w (snd (safe_getpass p ?w))"
      using 6 by (intro less.hyps) simp
    moreover have "io_only w ?w"
      by (simp add: io_only_emit io_only_consume)
    ultimately show ?thesis
      using 6 by (simp add: safe_getpass_Other_Interrupted) (rule io_only_trans)
  next
    case (7 rest)
    then show ?thesis by (simp add: safe_getpass_Other_Other io_only_emit io_only_consume)
  qed
qed

lemma ask_yes_no_io: "io_only w (snd (ask_yes_no ucd p w))"
proof (induction "length (stdin w)" arbitrary: w rule: less_induct)
  case less
  show ?case
  proof (cases "stdin w")
    case Nil
    then show ?thesis by (simp add: ask_yes_no_Nil io_only_emit)
  next
    case (Cons r rest)
    have rec: "io_only w (snd (ask_yes_no ucd p (emit m (consume p w))))" for m
    proof -
      have "io_only (emit m (consume p w)) (snd (ask_yes_no ucd p (emit m (consume p w))))"
        using Cons by (intro less.hyps) simp
      moreover have "io_only w (emit m (consume p w))"
        by (simp add: io_only_emit io_only_consume)
      ultimately show ?thesis by (rule io_only_trans [rotated])
    qed
    show ?thesis
    proof (cases r)
      case (Line ans)
      with Cons rec show ?thesis by (simp add: ask_yes_no_Line io_only_consume)
    next
      case (Raise e)
      with Cons rec show ?thesis
        by (cases e) (simp_all add: ask_yes_no_Interrupted ask_yes_no_Other io_only_consume)
    qed
  qed
qed

lemma io_only_length: "io_only w w' \<Longrightarrow> length (stdin w') \<le> length (stdin w)"
  by (auto simp add: io_only_def dest: suffix_length_le)

lemma extends_failed_world: "extends w w1 \<Longrightarrow> extends w (failed_world pw reason w1)"
  by (simp add: failed_world_def extends_emit extends_spinner)

lemma stdin_failed_world [simp]: "stdin (failed_world pw reason w1) = stdin w1"
  by (simp add: failed_world_def)

lemma check_loop_extends: "extends w (snd (check_loop ucd a w))"
proof (induction "length (stdin w)" arbitrary: w a rule: less_induct)
  case less
  obtain r w1 where sg: "safe_getpass PasswordPrompt w = (r, w1)"
    by (cases "safe_getpass PasswordPrompt w")
  have io1: "io_only w w1"
    using safe_getpass_io [of w PasswordPrompt] sg by simp
  then have ext1: "extends w w1" by (rule io_only_extends)
  show ?case
  proof (cases r)
    case Blocked
    with sg ext1 show ?thesis by (simp add: check_loop_Blocked)
  next
    case (Raised e)
    with sg ext1 show ?thesis by (simp add: check_loop_Raised)
  next
    case (Returned pw)
    with sg have sg': "safe_getpass PasswordPrompt w = (Returned pw, w1)" by simp
    then have short: "length (stdin w1) < length (stdin w)" by (rule safe_getpass_shorter)
    show ?thesis
    proof (cases "py_strip pw = []")
      case True
      have "extends (emit MsgEmpty w1) (snd (check_loop ucd a (emit MsgEmpty w1)))"
        using short by (intro less.hyps) simp
      with ext1 have "extends w (snd (check_loop ucd a (emit MsgEmpty w1)))"
        by (blast intro: extends_trans extends_emit)
      with sg' True show ?thesis by (simp add: check_loop_blank)
    next
      case False
      show ?thesis
      proof (cases "validation_chain pw")
        case None
        with sg' False ext1 show ?thesis
          by (simp add: check_loop_success extends_emit extends_spinner extends_log_attempt)
      next
        case (Some reason)
        let ?f = "failed_world pw reason w1"
        obtain r2 w5 where yn: "ask_yes_no ucd RetryPrompt ?f = (r2, w5)"
          by (cases "ask_yes_no ucd RetryPrompt ?f")
        have io5: "io_only ?f w5"
          using ask_yes_no_io [of ?f ucd RetryPrompt] yn by simp
        with ext1 have ext5: "extends w w5"
          by (blast intro: extends_trans extends_failed_world io_only_extends)
        show ?thesis
        proof (cases r2)
          case Blocked
          with sg' False Some yn ext5 show ?thesis by (simp add: check_loop_failure_Blocked)
        next
          case (Raised e)
          with sg' False Some yn ext5 show ?thesis by (simp add: check_loop_failure_Raised)
        next
          case (Returned retry_yes)
          show ?thesis
          proof (cases retry_yes)
            case False
            with sg' \<open>py_strip pw \<noteq> []\<close> Some yn Returned ext5 show ?thesis
              by (simp add: check_loop_failure_no extends_emit extends_log_attempt)
          next
            case True
            have "length (stdin w5) < length (stdin w)"
              using io_only_length [OF io5] short by simp
            then have "extends (emit MsgBlank w5) (snd (check_loop ucd (a + 1) (emit MsgBlank w5)))"
              by (intro less.hyps) simp
            with ext5 have "extends w (snd (check_loop ucd (a + 1) (emit MsgBlank w5)))"
              by (blast intro: extends_trans extends_emit)
            with sg' \<open>py_strip pw \<noteq> []\<close> Some yn Returned True show ?thesis
              by (simp add: check_loop_failure_yes)
          qed
        qed
      qed
    qed
  qed
qed

section \<open>The program (version 2.0)\<close>

text \<open>
  \<open>main()\<close>: the banner, then sessions for as long as the user answers yes to the
  question whether to check another password.
\<close>

function main_loop :: "(pystr \<Rightarrow> pystr) \<Rightarrow> world \<Rightarrow> unit outcome \<times> world" where
  "main_loop ucd w =
     (case run_password_check ucd w of
        (Blocked, w1) \<Rightarrow> (Blocked, w1)
      | (Raised e, w1) \<Rightarrow> (Raised e, w1)
      | (Returned u, w1) \<Rightarrow>
          (case ask_yes_no ucd AnotherPrompt w1 of
             (Blocked, w2) \<Rightarrow> (Blocked, w2)
           | (Raised e, w2) \<Rightarrow> (Raised e, w2)
           | (Returned another, w2) \<Rightarrow>
               if \<not> another then (Returned (), emit MsgBye w2)
               else main_loop ucd (emit MsgBlank w2)))"
  by pat_completeness auto
termination
proof (relation "measure (\<lambda>(ucd, w). length (stdin w))")
  show "wf (measure (\<lambda>(ucd, w). length (stdin w)))" by simp
next
  fix ucd :: "pystr \<Rightarrow> pystr" and w x1 w1 u x2 w2 another
  assume "(x1, w1) = run_password_check ucd w"
    and "(x2, w2) = ask_yes_no ucd AnotherPrompt w1" "x2 = Returned another"
  then show "((ucd, emit MsgBlank w2), (ucd, w)) \<in> measure (\<lambda>(ucd, w). length (stdin w))"
    using extends_length [OF check_loop_extends [of w ucd 0]]
      ask_yes_no_shorter [of ucd AnotherPrompt w1 another w2]
    by (simp add: run_password_check_def) (metis snd_conv le_less_trans less_le_trans)
qed

declare main_loop.simps [simp del]

definition main :: "(pystr \<Rightarrow> pystr) \<Rightarrow> world \<Rightarrow> unit outcome \<times> world" where
  "main ucd w = main_loop ucd (emit MsgBanner w)"

lemma consume_eq:
  "stdin w = r # rest \<Longrightarrow>
     consume p w = w\<lparr>stdin := rest, stdout := stdout w @ [Prompt p]\<rparr>"
  by (simp add: consume_def emit_def)

lemma prefix_snoc_weaken: "prefix (xs @ a # ys) zs \<Longrightarrow> prefix (xs @ [a]) zs"
proof -
  assume "prefix (xs @ a # ys) zs"
  then have "prefix ((xs @ [a]) @ ys) zs" by simp
  then show ?thesis by (rule append_prefixD)
qed

lemma extends_after_emit: "extends (emit m w1) w2 \<Longrightarrow> extends w1 w2"
  by (rule extends_trans [OF extends_emit [OF extends_refl]])

lemma safe_getpass_prompts:
  "prefix (stdout w @ [Prompt p]) (stdout (snd (safe_getpass p w)))"
proof (cases "stdin w" rule: script_cases)
  case 1
  then show ?thesis by (simp add: safe_getpass_Nil)
next
  case (2 s rest)
  then show ?thesis by (simp add: safe_getpass_Line)
next
  case (3 rest)
  let ?w = "emit MsgInterrupted (consume p w)"
  have "prefix (stdout ?w) (stdout (snd (safe_getpass p ?w)))"
    using safe_getpass_io [of ?w p] by (simp add: io_only_def)
  then show ?thesis
    using 3 by (simp add: safe_getpass_Interrupted prefix_snoc_weaken)
next
  case 4
  then show ?thesis by (simp add: safe_getpass_Other_Nil)
next
  case (5 s rest)
  then show ?thesis by (simp add: safe_getpass_Other_Line)
next
  case (6 rest)
  let ?w = "emit MsgInterrupted (consume p (emit MsgFallback (consume p w)))"
  have "prefix (stdout ?w) (stdout (snd (safe_getpass p ?w)))"
    using safe_getpass_io [of ?w p] by (simp add: io_only_def)
  then show ?thesis
    using 6 prefix_snoc_weaken [of "stdout w" "Prompt p" "[MsgFallback, Prompt p, MsgInterrupted]"]
    by (simp add: safe_getpass_Other_Interrupted)
next
  case (7 rest)
  then show ?thesis by (simp add: safe_getpass_Other_Other)
qed

lemma ask_yes_no_prompts:
  "prefix (stdout w @ [Prompt p]) (stdout (snd (ask_yes_no ucd p w)))"
proof (cases "stdin w")
  case Nil
  then show ?thesis by (simp add: ask_yes_no_Nil)
next
  case (Cons r rest)
  have rec: "prefix (stdout w @ [Prompt p]) (stdout (snd (ask_yes_no ucd p (emit m (consume p w)))))"
    for m
  proof -
    have "prefix (stdout (emit m (consume p w)))
        (stdout (snd (ask_yes_no ucd p (emit m (consume p w)))))"
      using ask_yes_no_io [of "emit m (consume p w)" ucd p] by (simp add: io_only_def)
    then show ?thesis by (simp add: prefix_snoc_weaken)
  qed
  show ?thesis
  proof (cases r)
    case (Line ans)
    with Cons rec show ?thesis by (simp add: ask_yes_no_Line)
  next
    case (Raise e)
    with Cons rec show ?thesis
      by (cases e) (simp_all add: ask_yes_no_Interrupted ask_yes_no_Other)
  qed
qed

lemma check_loop_extends_getpass:
  "extends (snd (safe_getpass PasswordPrompt w)) (snd (check_loop ucd a w))"
proof -
  obtain r w1 where sg: "safe_getpass PasswordPrompt w = (r, w1)"
    by (cases "safe_getpass PasswordPrompt w")
  show ?thesis
  proof (cases r)
    case Blocked
    with sg show ?thesis by (simp add: check_loop_Blocked)
  next
    case (Raised e)
    with sg show ?thesis by (simp add: check_loop_Raised)
  next
    case (Returned pw)
    with sg have sg': "safe_getpass PasswordPrompt w = (Returned pw, w1)" by simp
    show ?thesis
    proof (cases "py_strip pw = []")
      case True
      have "extends w1 (snd (check_loop ucd a (emit MsgEmpty w1)))"
        using check_loop_extends [of "emit MsgEmpty w1" ucd a] by (rule extends_after_emit)
      with sg' True show ?thesis by (simp add: check_loop_blank)
    next
      case False
      show ?thesis
      proof (cases "validation_chain pw")
        case None
        with sg' False show ?thesis
          by (simp add: check_loop_success extends_emit extends_spinner extends_log_attempt)
      next
        case (Some reason)
        let ?f = "failed_world pw reason w1"
        obtain r2 w5 where yn: "ask_yes_no ucd RetryPrompt ?f = (r2, w5)"
          by (cases "ask_yes_no ucd RetryPrompt ?f")
        have io5: "io_only ?f w5"
          using ask_yes_no_io [of ?f ucd RetryPrompt] yn by simp
        have ext5: "extends w1 w5"
          by (rule extends_trans [OF extends_failed_world [OF extends_refl]
                io_only_extends [OF io5]])
        show ?thesis
        proof (cases r2)
          case Blocked
          with sg' False Some yn ext5 show ?thesis by (simp add: check_loop_failure_Blocked)
        next
          case (Raised e)
          with sg' False Some yn ext5 show ?thesis by (simp add: check_loop_failure_Raised)
        next
          case (Returned retry_yes)
          show ?thesis
          proof (cases retry_yes)
            case False
            with sg' \<open>py_strip pw \<noteq> []\<close> Some yn Returned ext5 show ?thesis
              by (simp add: check_loop_failure_no extends_emit extends_log_attempt)
          next
            case True
            have "extends w5 (snd (check_loop ucd (a + 1) (emit MsgBlank w5)))"
              using check_loop_extends [of "emit MsgBlank w5" ucd "a + 1"]
              by (rule extends_after_emit)
            with ext5 have "extends w1 (snd (check_loop ucd (a + 1) (emit MsgBlank w5)))"
              by (rule extends_trans)
            with sg' \<open>py_strip pw \<noteq> []\<close> Some yn Returned True show ?thesis
              by (simp add: check_loop_failure_yes)
          qed
        qed
      qed
    qed
  qed
qed

lemma check_loop_prompts:
  "prefix (stdout w @ [Prompt PasswordPrompt]) (stdout (snd (check_loop ucd a w)))"
proof -
  have "prefix (stdout (snd (safe_getpass PasswordPrompt w))) (stdout (snd (check_loop ucd a w)))"
    using check_loop_extends_getpass [of w ucd a] by (simp add: extends_def)
  with safe_getpass_prompts [of w PasswordPrompt] show ?thesis
    by (rule prefix_order.trans)
qed

lemma check_loop_failure_extends:
  assumes "safe_getpass PasswordPrompt w = (Returned pw, w1)" "py_strip pw \<noteq> []"
    and "validation_chain pw = Some reason"
  shows "extends (snd (ask_yes_no ucd RetryPrompt (failed_world pw reason w1)))
           (snd (check_loop ucd a w))"
proof -
  let ?f = "failed_world pw reason w1"
  obtain r2 w5 where yn: "ask_yes_no ucd RetryPrompt ?f = (r2, w5)"
    by (cases "ask_yes_no ucd RetryPrompt ?f")
  show ?thesis
  proof (cases r2)
    case Blocked
    with assms yn show ?thesis by (simp add: check_loop_failure_Blocked)
  next
    case (Raised e)
    with assms yn show ?thesis by (simp add: check_loop_failure_Raised)
  next
    case (Returned retry_yes)
    show ?thesis
    proof (cases retry_yes)
      case False
      with assms yn Returned show ?thesis
        by (simp add: check_loop_failure_no extends_emit extends_log_attempt)
    next
      case True
      have "extends w5 (snd (check_loop ucd (a + 1) (emit MsgBlank w5)))"
        using check_loop_extends [of "emit MsgBlank w5" ucd "a + 1"]
        by (rule extends_after_emit)
      with assms yn Returned True show ?thesis
        by (simp add: check_loop_failure_yes)
    qed
  qed
qed

lemma check_loop_failure_prefix:
  assumes "stdin w = Line pw # rest" "py_strip pw \<noteq> []" "validation_chain pw = Some reason"
  shows "prefix
           (stdout w @
              [Prompt PasswordPrompt, MsgChecking, MsgSpinner, reason,
               MsgScoreWarn (score_password_default pw)
                 (rating_from_score (score_password_default pw)),
               Prompt RetryPrompt])
           (stdout (snd (check_loop ucd a w)))"
proof -
  let ?w1 = "consume PasswordPrompt w"
  let ?f = "failed_world pw reason ?w1"
  have sg: "safe_getpass PasswordPrompt w = (Returned pw, ?w1)"
    using assms(1) by (rule safe_getpass_Line)
  have "prefix (stdout ?f @ [Prompt RetryPrompt]) (stdout (snd (ask_yes_no ucd RetryPrompt ?f)))"
    by (rule ask_yes_no_prompts)
  moreover have "prefix (stdout (snd (ask_yes_no ucd RetryPrompt ?f)))
      (stdout (snd (check_loop ucd a w)))"
    using check_loop_failure_extends [OF sg assms(2,3), of ucd a] by (simp add: extends_def)
  ultimately have "prefix (stdout ?f @ [Prompt RetryPrompt]) (stdout (snd (check_loop ucd a w)))"
    by (rule prefix_order.trans)
  then show ?thesis by (simp add: failed_world_def)
qed

section \<open>The rules as the specification states them\<close>

text \<open>
  Following the specification's words: the five rules, their fixed priority order
  (length, uppercase, lowercase, digit, symbol), and the first rule of that order that
  a password does not meet. These definitions are not taken from the code; the
  validation chain of the code is compared with them.
\<close>

datatype rule = RuleLength | RuleUpper | RuleLower | RuleDigit | RuleSymbol

fun rule_holds :: "rule \<Rightarrow> pystr \<Rightarrow> bool" where
  "rule_holds RuleLength p \<longleftrightarrow> length p \<ge> 8"
| "rule_holds RuleUpper p \<longleftrightarrow> (\<exists>c\<in>set p. 65 \<le> c \<and> c \<le> 90)"
| "rule_holds RuleLower p \<longleftrightarrow> (\<exists>c\<in>set p. 97 \<le> c \<and> c \<le> 122)"
| "rule_holds RuleDigit p \<longleftrightarrow> (\<exists>c\<in>set p. 48 \<le> c \<and> c \<le> 57)"
| "rule_holds RuleSymbol p \<longleftrightarrow> (\<exists>c\<in>set p. c \<in> {64, 36, 33, 37, 42, 63, 38})"

definition priority_order :: "rule list" where
  "priority_order = [RuleLength, RuleUpper, RuleLower, RuleDigit, RuleSymbol]"

definition first_unmet :: "pystr \<Rightarrow> rule option" where
  "first_unmet p = find (\<lambda>r. \<not> rule_holds r p) priority_order"

fun reason_msg :: "rule \<Rightarrow> msg" where
  "reason_msg RuleLength = MsgTooShort"
| "reason_msg RuleUpper = MsgNoUpper"
| "reason_msg RuleLower = MsgNoLower"
| "reason_msg RuleDigit = MsgNoDigit"
| "reason_msg RuleSymbol = MsgNoSymbol"

text \<open>
  A world to run examples in: nothing printed, an empty log, and a clock whose
  \<open>n\<close>-th reading is 2025-10-16, 09:30 and \<open>n\<close> seconds.
\<close>

definition initial_world :: "read_result list \<Rightarrow> world" where
  "initial_world ins =
     \<lparr>stdin = ins, stdout = [], logfile = [],
      clock = (\<lambda>n. \<lparr>dt_year = 2025, dt_month = 10, dt_day = 16, dt_hour = 9, dt_minute = 30,
                     dt_second = n, dt_microsecond = 0\<rparr>),
      ticks = 0\<rparr>"

lemma validation_chain_unfold:
  "validation_chain p =
     (if \<not> 8 \<le> length p then Some MsgTooShort
      else if \<not> (\<exists>c\<in>set p. 65 \<le> c \<and> c \<le> 90) then Some MsgNoUpper
      else if \<not> (\<exists>c\<in>set p. 97 \<le> c \<and> c \<le> 122) then Some MsgNoLower
      else if \<not> (\<exists>c\<in>set p. 48 \<le> c \<and> c \<le> 57) then Some MsgNoDigit
      else if \<not> (\<exists>c\<in>set p. c \<in> {64, 36, 33, 37, 42, 63, 38}) then Some MsgNoSymbol
      else None)"
  unfolding validation_chain_def re_search_unfold not_le ..

lemma chain_None:
  "((if \<not> a then Some (m1::msg) else if \<not> b then Some m2 else if \<not> c then Some m3
     else if \<not> d then Some m4 else if \<not> e then Some m5 else None) = None)
   \<longleftrightarrow> a \<and> b \<and> c \<and> d \<and> e"
  by (cases a; cases b; cases c; cases d; cases e; simp)

lemma chain_find:
  "map_option reason_msg
     (find (\<lambda>r. \<not> (case r of RuleLength \<Rightarrow> a | RuleUpper \<Rightarrow> b | RuleLower \<Rightarrow> c
                          | RuleDigit \<Rightarrow> d | RuleSymbol \<Rightarrow> e))
        [RuleLength, RuleUpper, RuleLower, RuleDigit, RuleSymbol])
   = (if \<not> a then Some MsgTooShort else if \<not> b then Some MsgNoUpper
      else if \<not> c then Some MsgNoLower else if \<not> d then Some MsgNoDigit
      else if \<not> e then Some MsgNoSymbol else None)"
  by (cases a; cases b; cases c; cases d; cases e; simp)

lemma rule_holds_case:
  "rule_holds r p =
     (case r of RuleLength \<Rightarrow> 8 \<le> length p
      | RuleUpper \<Rightarrow> (\<exists>c\<in>set p. 65 \<le> c \<and> c \<le> 90)
      | RuleLower \<Rightarrow> (\<exists>c\<in>set p. 97 \<le> c \<and> c \<le> 122)
      | RuleDigit \<Rightarrow> (\<exists>c\<in>set p. 48 \<le> c \<and> c \<le> 57)
      | RuleSymbol \<Rightarrow> (\<exists>c\<in>set p. c \<in> {64, 36, 33, 37, 42, 63, 38}))"
  by (cases r) simp_all

lemma validation_chain_first_unmet:
  "validation_chain p = map_option reason_msg (first_unmet p)"
  unfolding validation_chain_unfold first_unmet_def priority_order_def rule_holds_case chain_find ..

lemma all_five:
  "(of_bool a + of_bool b + of_bool c + of_bool d + of_bool e :: int) = 5
     \<longleftrightarrow> a \<and> b \<and> c \<and> d \<and> e"
  by (cases a; cases b; cases c; cases d; cases e; simp)

lemma score_password_default_sum:
  "score_password_default p =
     of_bool (8 \<le> length p)
     + of_bool (\<exists>c\<in>set p. 65 \<le> c \<and> c \<le> 90)
     + of_bool (\<exists>c\<in>set p. 97 \<le> c \<and> c \<le> 122)
     + of_bool (\<exists>c\<in>set p. 48 \<le> c \<and> c \<le> 57)
     + of_bool (\<exists>c\<in>set p. c \<in> {64, 36, 33, 37, 42, 63, 38})"
  unfolding score_password_default_def score_password_def score_steps
  by (simp only: re_search_unfold int_length_ge)

lemma score_5_iff:
  "score_password_default p = 5 \<longleftrightarrow>
     8 \<le> length p \<and> (\<exists>c\<in>set p. 65 \<le> c \<and> c \<le> 90) \<and> (\<exists>c\<in>set p. 97 \<le> c \<and> c \<le> 122)
     \<and> (\<exists>c\<in>set p. 48 \<le> c \<and> c \<le> 57) \<and> (\<exists>c\<in>set p. c \<in> {64, 36, 33, 37, 42, 63, 38})"
  unfolding score_password_default_sum by (rule all_five)

lemma validation_chain_None_iff:
  "validation_chain p = None \<longleftrightarrow> score_password_default p = 5"
  unfolding score_5_iff validation_chain_unfold chain_None ..

lemma rating_5: "rating_from_score 5 = ''Strong''"
  by (simp add: rating_from_score_def)

lemma check_loop_success_world:
  assumes "stdin w = Line pw # rest" "py_strip pw \<noteq> []" "score_password_default pw = 5"
  shows "check_loop ucd a w =
     (Returned (),
      w\<lparr>stdin := rest,
        stdout := stdout w @
          [Prompt PasswordPrompt, MsgChecking, MsgSpinner, MsgHurray (a + 1),
           MsgScoreFire 5 ''Strong'', MsgLogSaved, MsgAllDone],
        logfile := logfile w @ [log_line (clock w (ticks w)) (a + 1) 5 ''Strong''],
        ticks := ticks w + 1\<rparr>)"
proof -
  have sg: "safe_getpass PasswordPrompt w = (Returned pw, consume PasswordPrompt w)"
    using assms(1) by (rule safe_getpass_Line)
  have none: "validation_chain pw = None"
    using assms(3) by (simp add: validation_chain_None_iff)
  show ?thesis
    unfolding check_loop_success [OF sg assms(2) none] assms(3) rating_5
    using assms(1)
    by (simp add: emit_def log_attempt_def datetime_now_def spinner_def consume_def)
qed

lemma validation_chain_reasons:
  "validation_chain p = Some m \<Longrightarrow>
     m \<in> {MsgTooShort, MsgNoUpper, MsgNoLower, MsgNoDigit, MsgNoSymbol}"
  by (auto simp add: validation_chain_def split: if_splits)

lemma failed_world_eq:
  "stdin w = Line pw # rest \<Longrightarrow>
     failed_world pw reason (consume PasswordPrompt w) =
       w\<lparr>stdin := rest,
         stdout := stdout w @
           [Prompt PasswordPrompt, MsgChecking, MsgSpinner, reason,
            MsgScoreWarn (score_password_default pw)
              (rating_from_score (score_password_default pw))]\<rparr>"
  by (simp add: failed_world_def emit_def spinner_def consume_def)

lemma decline_world_eq:
  "log_attempt n s r (emit (MsgThanks n) (emit MsgAllDone w5)) =
     w5\<lparr>stdout := stdout w5 @ [MsgAllDone, MsgThanks n, MsgLogSaved],
        logfile := logfile w5 @ [log_line (clock w5 (ticks w5)) n s r],
        ticks := ticks w5 + 1\<rparr>"
  by (simp add: log_attempt_def datetime_now_def emit_def)

lemma rules_all_iff_score:
  "(\<forall>r\<in>set priority_order. rule_holds r p) \<longleftrightarrow> score_password_default p = 5"
  unfolding score_5_iff by (simp add: priority_order_def)

lemma first_unmet_Some:
  "\<exists>r\<in>set priority_order. \<not> rule_holds r p \<Longrightarrow> \<exists>r. first_unmet p = Some r"
  unfolding first_unmet_def by (cases "find (\<lambda>r. \<not> rule_holds r p) priority_order")
    (auto simp add: find_None_iff)

lemma lowercase_bang_facts:
  "py_strip (ustr ''lowercase!'') \<noteq> []"
  "first_unmet (ustr ''lowercase!'') = Some RuleUpper"
  "score_password_default (ustr ''lowercase!'') = 3"
  "\<not> rule_holds RuleUpper (ustr ''lowercase!'')"
  "\<not> rule_holds RuleDigit (ustr ''lowercase!'')"
  by (simp_all add: ustr_def py_strip_def py_isspace_def first_unmet_def priority_order_def
      score_password_default_sum)

lemma log_line_examples:
  "log_line (clock (initial_world ins) 0) 1 5 ''Strong'' =
     ''2025-10-16T09:30:00 | attempts=1 | score=5/5 | rating=Strong'' @ [CHR 0x0A]"
  "log_line (clock (initial_world ins) 0) 1 2 ''Weak'' =
     ''2025-10-16T09:30:00 | attempts=1 | score=2/5 | rating=Weak'' @ [CHR 0x0A]"
  by (simp_all add: initial_world_def log_line_def isoformat_def zpad_def str_int_def
      str_nat.simps)

lemma strong_pass_facts:
  "py_strip (ustr ''Str0ng!Pass'') \<noteq> []"
  "score_password_default (ustr ''Str0ng!Pass'') = 5"
  by (simp_all add: ustr_def py_strip_def py_isspace_def score_password_default_sum)

lemma short1_facts:
  "py_strip (ustr ''short1'') \<noteq> []"
  "score_password_default (ustr ''short1'') = 2"
  "validation_chain (ustr ''short1'') = Some MsgTooShort"
  by (simp_all add: ustr_def py_strip_def py_isspace_def score_password_default_sum
      validation_chain_unfold)

lemma py_strip_Nil_iff: "py_strip s = [] \<longleftrightarrow> (\<forall>c\<in>set s. py_isspace c)"
proof
  assume "py_strip s = []"
  then have all: "\<forall>x\<in>set (dropWhile py_isspace s). py_isspace x"
    by (simp add: py_strip_def dropWhile_eq_Nil_conv)
  have "dropWhile py_isspace s = []"
  proof (rule ccontr)
    assume ne: "dropWhile py_isspace s \<noteq> []"
    then have "\<not> py_isspace (hd (dropWhile py_isspace s))" by (rule hd_dropWhile)
    moreover from ne have "hd (dropWhile py_isspace s) \<in> set (dropWhile py_isspace s)"
      by (rule hd_in_set)
    ultimately show False using all by blast
  qed
  then show "\<forall>c\<in>set s. py_isspace c" by (simp add: dropWhile_eq_Nil_conv)
next
  assume "\<forall>c\<in>set s. py_isspace c"
  then have d: "dropWhile py_isspace s = []" by (simp add: dropWhile_eq_Nil_conv)
  show "py_strip s = []"
    unfolding py_strip_def d by (simp only: rev.simps dropWhile.simps)
qed

section \<open>The yes/no reader\<close>

text \<open>
  The responses \<open>ask_yes_no\<close> passes over before the first valid answer, and what it
  prints for each of them.
\<close>

definition valid_answers :: "pystr set" where
  "valid_answers = {ustr ''y'', ustr ''yes'', ustr ''n'', ustr ''no''}"

fun skipped :: "(pystr \<Rightarrow> pystr) \<Rightarrow> read_result \<Rightarrow> bool" where
  "skipped ucd (Line ans) \<longleftrightarrow> norm_answer ucd ans \<notin> valid_answers"
| "skipped ucd (Raise Interrupted) \<longleftrightarrow> True"
| "skipped ucd (Raise OtherError) \<longleftrightarrow> False"

fun reprompt_output :: "prompt \<Rightarrow> read_result \<Rightarrow> msg list" where
  "reprompt_output p (Line ans) = [Prompt p, MsgNotYesNo]"
| "reprompt_output p (Raise e) = [Prompt p, MsgInterruptedYN]"

lemma valid_answers_split: "valid_answers = valid_yes \<union> valid_no"
  by (auto simp add: valid_answers_def valid_yes_def valid_no_def)

lemma valid_yes_no_disjoint: "x \<in> valid_yes \<Longrightarrow> x \<notin> valid_no"
  by (auto simp add: valid_yes_def valid_no_def ustr_def)

lemma ask_yes_no_invalid:
  assumes "stdin w = Line ans # rest" and "norm_answer ucd ans \<notin> valid_answers"
  shows "ask_yes_no ucd p w =
           ask_yes_no ucd p (w\<lparr>stdin := rest, stdout := stdout w @ [Prompt p, MsgNotYesNo]\<rparr>)"
proof -
  have "emit MsgNotYesNo (consume p w) =
      w\<lparr>stdin := rest, stdout := stdout w @ [Prompt p, MsgNotYesNo]\<rparr>"
    using assms(1) by (simp add: emit_def consume_def)
  moreover have "ask_yes_no ucd p w = ask_yes_no ucd p (emit MsgNotYesNo (consume p w))"
    using assms by (simp add: ask_yes_no_Line valid_answers_split)
  ultimately show ?thesis by (simp only:)
qed

lemma ask_yes_no_interrupted:
  assumes "stdin w = Raise Interrupted # rest"
  shows "ask_yes_no ucd p w =
           ask_yes_no ucd p
             (w\<lparr>stdin := rest, stdout := stdout w @ [Prompt p, MsgInterruptedYN]\<rparr>)"
proof -
  have "emit MsgInterruptedYN (consume p w) =
      w\<lparr>stdin := rest, stdout := stdout w @ [Prompt p, MsgInterruptedYN]\<rparr>"
    using assms(1) by (simp add: emit_def consume_def)
  moreover have "ask_yes_no ucd p w = ask_yes_no ucd p (emit MsgInterruptedYN (consume p w))"
    using assms by (simp add: ask_yes_no_Interrupted)
  ultimately show ?thesis by (simp only:)
qed

lemma ask_yes_no_valid:
  assumes "stdin w = Line ans # rest" and "norm_answer ucd ans \<in> valid_answers"
  shows "ask_yes_no ucd p w =
           (Returned (norm_answer ucd ans \<in> valid_yes),
            w\<lparr>stdin := rest, stdout := stdout w @ [Prompt p]\<rparr>)"
  using assms by (auto simp add: ask_yes_no_Line valid_answers_split consume_eq)

lemma ask_yes_no_answers:
  "stdin w = pre @ Line ans # rest \<Longrightarrow> list_all (skipped ucd) pre \<Longrightarrow>
   norm_answer ucd ans \<in> valid_answers \<Longrightarrow>
     ask_yes_no ucd p w =
       (Returned (norm_answer ucd ans \<in> valid_yes),
        w\<lparr>stdin := rest,
          stdout := stdout w @ concat (map (reprompt_output p) pre) @ [Prompt p]\<rparr>)"
proof (induction pre arbitrary: w)
  case Nil
  then show ?case by (simp add: ask_yes_no_valid)
next
  case (Cons r pre)
  from Cons.prems have st: "stdin w = r # (pre @ Line ans # rest)" by simp
  from Cons.prems have sk: "skipped ucd r" and rest_sk: "list_all (skipped ucd) pre" by simp_all
  let ?w = "w\<lparr>stdin := pre @ Line ans # rest, stdout := stdout w @ reprompt_output p r\<rparr>"
  have step: "ask_yes_no ucd p w = ask_yes_no ucd p ?w"
  proof (cases r)
    case (Line x)
    with st sk have "stdin w = Line x # (pre @ Line ans # rest)"
      and "norm_answer ucd x \<notin> valid_answers" by simp_all
    from ask_yes_no_invalid [OF this, of p] Line show ?thesis by simp
  next
    case (Raise e)
    with st sk have "stdin w = Raise Interrupted # (pre @ Line ans # rest)"
      by (cases e) simp_all
    from ask_yes_no_interrupted [OF this, of ucd p] Raise show ?thesis by simp
  qed
  have "ask_yes_no ucd p ?w =
       (Returned (norm_answer ucd ans \<in> valid_yes),
        ?w\<lparr>stdin := rest,
          stdout := stdout ?w @ concat (map (reprompt_output p) pre) @ [Prompt p]\<rparr>)"
    using rest_sk Cons.prems(3) by (intro Cons.IH) simp_all
  with step show ?case by simp
qed

lemma ask_yes_no_returned:
  "ask_yes_no ucd p w = (Returned b, w') \<Longrightarrow>
     \<exists>pre ans rest. stdin w = pre @ Line ans # rest \<and> list_all (skipped ucd) pre
       \<and> norm_answer ucd ans \<in> valid_answers \<and> b = (norm_answer ucd ans \<in> valid_yes)
       \<and> stdin w' = rest"
proof (induction "length (stdin w)" arbitrary: w rule: less_induct)
  case less
  show ?case
  proof (cases "stdin w")
    case Nil
    with less.prems show ?thesis by (simp add: ask_yes_no_Nil)
  next
    case (Cons r rest0)
    have rec: "\<exists>pre ans rest. stdin w = pre @ Line ans # rest \<and> list_all (skipped ucd) pre
       \<and> norm_answer ucd ans \<in> valid_answers \<and> b = (norm_answer ucd ans \<in> valid_yes)
       \<and> stdin w' = rest"
      if sk: "skipped ucd r" and eq: "ask_yes_no ucd p w = ask_yes_no ucd p w2"
        and st2: "stdin w2 = rest0" for w2
    proof -
      have "\<exists>pre ans rest. stdin w2 = pre @ Line ans # rest \<and> list_all (skipped ucd) pre
         \<and> norm_answer ucd ans \<in> valid_answers \<and> b = (norm_answer ucd ans \<in> valid_yes)
         \<and> stdin w' = rest"
        using less.prems eq st2 Cons by (intro less.hyps) simp_all
      then obtain pre ans rest where
        *: "stdin w2 = pre @ Line ans # rest" "list_all (skipped ucd) pre"
          "norm_answer ucd ans \<in> valid_answers" "b = (norm_answer ucd ans \<in> valid_yes)"
          "stdin w' = rest"
        by blast
      from * st2 Cons sk have "stdin w = (r # pre) @ Line ans # rest"
        and "list_all (skipped ucd) (r # pre)" by simp_all
      with * show ?thesis by blast
    qed
    show ?thesis
    proof (cases r)
      case (Line x)
      show ?thesis
      proof (cases "norm_answer ucd x \<in> valid_answers")
        case True
        from ask_yes_no_valid [OF _ True, of w rest0 p] Cons Line less.prems
        have "b = (norm_answer ucd x \<in> valid_yes)" and "stdin w' = rest0" by auto
        with Cons Line True have "stdin w = [] @ Line x # rest0 \<and> list_all (skipped ucd) []
          \<and> norm_answer ucd x \<in> valid_answers \<and> b = (norm_answer ucd x \<in> valid_yes)
          \<and> stdin w' = rest0" by simp
        then show ?thesis by blast
      next
        case False
        with Line have "skipped ucd r" by simp
        moreover from Cons Line have "stdin w = Line x # rest0" by simp
        from ask_yes_no_invalid [OF this False, of p]
        have "ask_yes_no ucd p w =
           ask_yes_no ucd p (w\<lparr>stdin := rest0, stdout := stdout w @ [Prompt p, MsgNotYesNo]\<rparr>)" .
        ultimately show ?thesis by (rule rec) simp
      qed
    next
      case (Raise e)
      show ?thesis
      proof (cases e)
        case Interrupted
        with Raise have "skipped ucd r" by simp
        moreover from Cons Raise Interrupted have "stdin w = Raise Interrupted # rest0" by simp
        from ask_yes_no_interrupted [OF this, of ucd p]
        have "ask_yes_no ucd p w =
           ask_yes_no ucd p
             (w\<lparr>stdin := rest0, stdout := stdout w @ [Prompt p, MsgInterruptedYN]\<rparr>)" .
        ultimately show ?thesis by (rule rec) simp
      next
        case OtherError
        with less.prems Cons Raise show ?thesis by (simp add: ask_yes_no_Other)
      qed
    qed
  qed
qed

lemma answer_examples:
  "norm_answer (\<lambda>s. s) (ustr ''maybe'') \<notin> valid_answers"
  "norm_answer (\<lambda>s. s) (ustr '' YES '') = ustr ''yes''"
  "norm_answer (\<lambda>s. s) (ustr ''N'') = ustr ''n''"
  "norm_answer (\<lambda>s. s) (ustr ''no'') = ustr ''no''"
  "norm_answer (\<lambda>s. s) (ustr ''yes'') = ustr ''yes''"
  by (simp_all add: norm_answer_def py_lower_def py_strip_def py_isspace_def ascii_lower_def
      ustr_def valid_answers_def)

section \<open>The log does not depend on the password\<close>

text \<open>
  A log line without its timestamp: the timestamp has no blank, and the first blank of
  the line is the one before the first bar.
\<close>

definition payload :: "string \<Rightarrow> string" where
  "payload l = dropWhile (\<lambda>c. c \<noteq> CHR '' '') l"

lemma digit_not_space: "k < 10 \<Longrightarrow> ''0123456789'' ! k \<noteq> CHR '' ''"
proof -
  assume "k < 10"
  then have "k \<in> {0, 1, 2, 3, 4, 5, 6, 7, 8, 9}" by auto
  then show ?thesis by auto
qed

lemma str_nat_no_space: "\<forall>c\<in>set (str_nat n). c \<noteq> CHR '' ''"
proof (induction n rule: str_nat.induct)
  case (1 n)
  show ?case
  proof (cases "n < 10")
    case True
    then show ?thesis
      by (subst str_nat.simps) (simp add: digit_not_space)
  next
    case False
    have "n mod 10 < 10" by simp
    then have "''0123456789'' ! (n mod 10) \<noteq> CHR '' ''" by (rule digit_not_space)
    with False 1 show ?thesis
      by (subst str_nat.simps) simp
  qed
qed

lemma zpad_no_space: "CHR '' '' \<notin> set (zpad k n)"
proof -
  have "CHR '' '' \<notin> set (str_nat n)"
    using str_nat_no_space [of n] by blast
  moreover have "CHR '' '' \<notin> set (replicate m CHR ''0'')" for m
    by simp
  ultimately show ?thesis
    unfolding zpad_def Let_def set_append by blast
qed

lemma isoformat_no_space: "CHR '' '' \<notin> set (isoformat d)"
proof -
  have "CHR '' '' \<notin> set (if dt_microsecond d \<noteq> 0 then ''.'' @ zpad 6 (dt_microsecond d) else [])"
    using zpad_no_space [of 6 "dt_microsecond d"] by simp
  then show ?thesis
    unfolding isoformat_def set_append
    using zpad_no_space [of 4 "dt_year d"] zpad_no_space [of 2 "dt_month d"]
      zpad_no_space [of 2 "dt_day d"] zpad_no_space [of 2 "dt_hour d"]
      zpad_no_space [of 2 "dt_minute d"] zpad_no_space [of 2 "dt_second d"]
    by simp
qed

lemma payload_log_line:
  "payload (log_line now n s r) =
     '' | attempts='' @ str_int n @ '' | score='' @ str_int s @ ''/5 | rating='' @ r @ [CHR 0x0A]"
proof -
  have "dropWhile (\<lambda>c. c \<noteq> CHR '' '') (isoformat now @ rest) =
      dropWhile (\<lambda>c. c \<noteq> CHR '' '') rest" for rest
    using isoformat_no_space [of now] by (intro dropWhile_append2) blast
  then show ?thesis
    unfolding payload_def log_line_def by simp
qed

definition same_log :: "world \<Rightarrow> world \<Rightarrow> bool" where
  "same_log w w' \<longleftrightarrow>
     stdin w = stdin w' \<and> map payload (logfile w) = map payload (logfile w')"

lemma safe_getpass_indep:
  "stdin w = stdin w' \<Longrightarrow>
     fst (safe_getpass p w) = fst (safe_getpass p w')
     \<and> stdin (snd (safe_getpass p w)) = stdin (snd (safe_getpass p w'))"
proof (induction "length (stdin w)" arbitrary: w w' rule: less_induct)
  case less
  note eq = less.prems
  show ?case
  proof (cases "stdin w" rule: script_cases)
    case 1
    then have a: "stdin w = []" and b: "stdin w' = []" using eq by simp_all
    show ?thesis
      unfolding safe_getpass_Nil [OF a] safe_getpass_Nil [OF b] using a b by simp
  next
    case (2 s rest)
    then have a: "stdin w = Line s # rest" and b: "stdin w' = Line s # rest"
      using eq by simp_all
    show ?thesis
      unfolding safe_getpass_Line [OF a] safe_getpass_Line [OF b] using a b by simp
  next
    case (3 rest)
    then have a: "stdin w = Raise Interrupted # rest"
      and b: "stdin w' = Raise Interrupted # rest" using eq by simp_all
    let ?v = "emit MsgInterrupted (consume p w)" and ?v' = "emit MsgInterrupted (consume p w')"
    have "fst (safe_getpass p ?v) = fst (safe_getpass p ?v')
        \<and> stdin (snd (safe_getpass p ?v)) = stdin (snd (safe_getpass p ?v'))"
      using a b by (intro less.hyps) simp_all
    then show ?thesis
      unfolding safe_getpass_Interrupted [OF a] safe_getpass_Interrupted [OF b] .
  next
    case 4
    then have a: "stdin w = [Raise OtherError]" and b: "stdin w' = [Raise OtherError]"
      using eq by simp_all
    show ?thesis
      unfolding safe_getpass_Other_Nil [OF a] safe_getpass_Other_Nil [OF b] using a b by simp
  next
    case (5 s rest)
    then have a: "stdin w = Raise OtherError # Line s # rest"
      and b: "stdin w' = Raise OtherError # Line s # rest" using eq by simp_all
    show ?thesis
      unfolding safe_getpass_Other_Line [OF a] safe_getpass_Other_Line [OF b] using a b by simp
  next
    case (6 rest)
    then have a: "stdin w = Raise OtherError # Raise Interrupted # rest"
      and b: "stdin w' = Raise OtherError # Raise Interrupted # rest" using eq by simp_all
    let ?v = "emit MsgInterrupted (consume p (emit MsgFallback (consume p w)))"
    let ?v' = "emit MsgInterrupted (consume p (emit MsgFallback (consume p w')))"
    have "fst (safe_getpass p ?v) = fst (safe_getpass p ?v')
        \<and> stdin (snd (safe_getpass p ?v)) = stdin (snd (safe_getpass p ?v'))"
      using a b by (intro less.hyps) simp_all
    then show ?thesis
      unfolding safe_getpass_Other_Interrupted [OF a] safe_getpass_Other_Interrupted [OF b] .
  next
    case (7 rest)
    then have a: "stdin w = Raise OtherError # Raise OtherError # rest"
      and b: "stdin w' = Raise OtherError # Raise OtherError # rest" using eq by simp_all
    show ?thesis
      unfolding safe_getpass_Other_Other [OF a] safe_getpass_Other_Other [OF b]
      using a b by simp
  qed
qed

lemma ask_yes_no_indep:
  "stdin w = stdin w' \<Longrightarrow>
     fst (ask_yes_no ucd p w) = fst (ask_yes_no ucd p w')
     \<and> stdin (snd (ask_yes_no ucd p w)) = stdin (snd (ask_yes_no ucd p w'))"
proof (induction "length (stdin w)" arbitrary: w w' rule: less_induct)
  case less
  note eq = less.prems
  show ?case
  proof (cases "stdin w")
    case Nil
    then have a: "stdin w = []" and b: "stdin w' = []" using eq by simp_all
    show ?thesis
      unfolding ask_yes_no_Nil [OF a] ask_yes_no_Nil [OF b] using a b by simp
  next
    case (Cons r rest)
    then have a: "stdin w = r # rest" and b: "stdin w' = r # rest" using eq by simp_all
    have rec: "fst (ask_yes_no ucd p (emit m (consume p w)))
          = fst (ask_yes_no ucd p (emit m (consume p w')))
        \<and> stdin (snd (ask_yes_no ucd p (emit m (consume p w))))
          = stdin (snd (ask_yes_no ucd p (emit m (consume p w'))))" for m
      using a b by (intro less.hyps) simp_all
    show ?thesis
    proof (cases r)
      case (Line ans)
      with a b have a': "stdin w = Line ans # rest" and b': "stdin w' = Line ans # rest"
        by simp_all
      show ?thesis
        unfolding ask_yes_no_Line [OF a'] ask_yes_no_Line [OF b']
        using rec [of MsgNotYesNo] a' b' by simp
    next
      case (Raise e)
      show ?thesis
      proof (cases e)
        case Interrupted
        with Raise a b have a': "stdin w = Raise Interrupted # rest"
          and b': "stdin w' = Raise Interrupted # rest" by simp_all
        show ?thesis
          unfolding ask_yes_no_Interrupted [OF a'] ask_yes_no_Interrupted [OF b']
          using rec [of MsgInterruptedYN] .
      next
        case OtherError
        with Raise a b have a': "stdin w = Raise OtherError # rest"
          and b': "stdin w' = Raise OtherError # rest" by simp_all
        show ?thesis
          unfolding ask_yes_no_Other [OF a'] ask_yes_no_Other [OF b'] using a' b' by simp
      qed
    qed
  qed
qed

lemma same_log_emit: "same_log w w' \<Longrightarrow> same_log (emit m w) (emit m' w')"
  by (simp add: same_log_def)

lemma same_log_spinner: "same_log w w' \<Longrightarrow> same_log (spinner w) (spinner w')"
  by (simp add: same_log_def)

lemma same_log_log_attempt:
  "same_log w w' \<Longrightarrow> same_log (log_attempt n s r w) (log_attempt n s r w')"
  by (simp add: same_log_def payload_log_line)

lemma same_log_io:
  assumes "same_log w w'" "io_only w v" "io_only w' v'" "stdin v = stdin v'"
  shows "same_log v v'"
  using assms by (simp add: same_log_def io_only_def)

lemma same_log_failed_world:
  "same_log w w' \<Longrightarrow> same_log (failed_world p m w) (failed_world q m' w')"
  by (simp add: same_log_def failed_world_def)

lemma attempt_same_log:
  assumes sg: "safe_getpass PasswordPrompt w = (Returned p, w1)"
    and sg': "safe_getpass PasswordPrompt w' = (Returned q, w1')"
    and rel: "same_log w1 w1'"
    and nb: "py_strip p \<noteq> []" "py_strip q \<noteq> []"
    and sc: "score_password_default p = score_password_default q"
    and rec: "\<And>a2 v v'. length (stdin v) \<le> length (stdin w1) \<Longrightarrow> same_log v v' \<Longrightarrow>
        fst (check_loop ucd a2 v) = fst (check_loop ucd a2 v')
        \<and> same_log (snd (check_loop ucd a2 v)) (snd (check_loop ucd a2 v'))"
  shows "fst (check_loop ucd a w) = fst (check_loop ucd a w')
       \<and> same_log (snd (check_loop ucd a w)) (snd (check_loop ucd a w'))"
proof (cases "score_password_default p = 5")
  case True
  then have vp: "validation_chain p = None" and vq: "validation_chain q = None"
    using sc by (simp_all add: validation_chain_None_iff)
  show ?thesis
    unfolding check_loop_success [OF sg nb(1) vp] check_loop_success [OF sg' nb(2) vq] sc
    using rel by (simp add: same_log_emit same_log_spinner same_log_log_attempt)
next
  case False
  then obtain m where vp: "validation_chain p = Some m"
    using validation_chain_None_iff [of p] by (cases "validation_chain p") auto
  from False sc obtain m' where vq: "validation_chain q = Some m'"
    using validation_chain_None_iff [of q] by (cases "validation_chain q") auto
  let ?f = "failed_world p m w1" and ?f' = "failed_world q m' w1'"
  have relf: "same_log ?f ?f'" using rel by (rule same_log_failed_world)
  then have stf: "stdin ?f = stdin ?f'" by (simp add: same_log_def)
  obtain r2 w5 where yn: "ask_yes_no ucd RetryPrompt ?f = (r2, w5)"
    by (cases "ask_yes_no ucd RetryPrompt ?f")
  obtain r2' w5' where yn': "ask_yes_no ucd RetryPrompt ?f' = (r2', w5')"
    by (cases "ask_yes_no ucd RetryPrompt ?f'")
  from ask_yes_no_indep [OF stf, of ucd RetryPrompt] yn yn'
  have r2: "r2' = r2" and st5: "stdin w5 = stdin w5'" by simp_all
  have io5: "io_only ?f w5" using ask_yes_no_io [of ?f ucd RetryPrompt] yn by simp
  have io5': "io_only ?f' w5'" using ask_yes_no_io [of ?f' ucd RetryPrompt] yn' by simp
  have rel5: "same_log w5 w5'" using relf io5 io5' st5 by (rule same_log_io)
  show ?thesis
  proof (cases r2)
    case Blocked
    show ?thesis
      unfolding check_loop_failure_Blocked [OF sg nb(1) vp yn [unfolded Blocked]]
        check_loop_failure_Blocked [OF sg' nb(2) vq yn' [unfolded r2 Blocked]]
      using rel5 by simp
  next
    case (Raised e)
    show ?thesis
      unfolding check_loop_failure_Raised [OF sg nb(1) vp yn [unfolded Raised]]
        check_loop_failure_Raised [OF sg' nb(2) vq yn' [unfolded r2 Raised]]
      using rel5 by simp
  next
    case (Returned retry_yes)
    show ?thesis
    proof (cases retry_yes)
      case False
      have ynF: "ask_yes_no ucd RetryPrompt ?f = (Returned False, w5)"
        and ynF': "ask_yes_no ucd RetryPrompt ?f' = (Returned False, w5')"
        using yn yn' r2 Returned False by simp_all
      show ?thesis
        unfolding check_loop_failure_no [OF sg nb(1) vp ynF]
          check_loop_failure_no [OF sg' nb(2) vq ynF'] sc
        using rel5 by (simp add: same_log_emit same_log_log_attempt)
    next
      case True
      have ynT: "ask_yes_no ucd RetryPrompt ?f = (Returned True, w5)"
        and ynT': "ask_yes_no ucd RetryPrompt ?f' = (Returned True, w5')"
        using yn yn' r2 Returned True by simp_all
      have "length (stdin (emit MsgBlank w5)) \<le> length (stdin w1)"
        using io_only_length [OF io5] by simp
      moreover have "same_log (emit MsgBlank w5) (emit MsgBlank w5')"
        using rel5 by (rule same_log_emit)
      ultimately show ?thesis
        unfolding check_loop_failure_yes [OF sg nb(1) vp ynT]
          check_loop_failure_yes [OF sg' nb(2) vq ynT']
        by (rule rec)
    qed
  qed
qed

lemma check_loop_same_log:
  "same_log w w' \<Longrightarrow>
     fst (check_loop ucd a w) = fst (check_loop ucd a w')
     \<and> same_log (snd (check_loop ucd a w)) (snd (check_loop ucd a w'))"
proof (induction "length (stdin w)" arbitrary: w w' a rule: less_induct)
  case less
  from less.prems have st: "stdin w = stdin w'" by (simp add: same_log_def)
  obtain r w1 where sg: "safe_getpass PasswordPrompt w = (r, w1)"
    by (cases "safe_getpass PasswordPrompt w")
  obtain r' w1' where sg': "safe_getpass PasswordPrompt w' = (r', w1')"
    by (cases "safe_getpass PasswordPrompt w'")
  from safe_getpass_indep [OF st, of PasswordPrompt] sg sg'
  have r: "r' = r" and st1: "stdin w1 = stdin w1'" by simp_all
  have io1: "io_only w w1" using safe_getpass_io [of w PasswordPrompt] sg by simp
  have io1': "io_only w' w1'" using safe_getpass_io [of w' PasswordPrompt] sg' by simp
  have rel1: "same_log w1 w1'" using less.prems io1 io1' st1 by (rule same_log_io)
  show ?case
  proof (cases r)
    case Blocked
    show ?thesis
      unfolding check_loop_Blocked [OF sg [unfolded Blocked]]
        check_loop_Blocked [OF sg' [unfolded r Blocked]]
      using rel1 by simp
  next
    case (Raised e)
    show ?thesis
      unfolding check_loop_Raised [OF sg [unfolded Raised]]
        check_loop_Raised [OF sg' [unfolded r Raised]]
      using rel1 by simp
  next
    case (Returned pw)
    note sgR = sg [unfolded Returned] and sgR' = sg' [unfolded r Returned]
    have short: "length (stdin w1) < length (stdin w)"
      using sgR by (rule safe_getpass_shorter)
    show ?thesis
    proof (cases "py_strip pw = []")
      case True
      have "fst (check_loop ucd a (emit MsgEmpty w1)) = fst (check_loop ucd a (emit MsgEmpty w1'))
          \<and> same_log (snd (check_loop ucd a (emit MsgEmpty w1)))
              (snd (check_loop ucd a (emit MsgEmpty w1')))"
        using short rel1 by (intro less.hyps) (simp_all add: same_log_emit)
      then show ?thesis
        unfolding check_loop_blank [OF sgR True] check_loop_blank [OF sgR' True] .
    next
      case False
      show ?thesis
      proof (rule attempt_same_log [OF sgR sgR' rel1 False False refl])
        fix a2 v v'
        assume "length (stdin v) \<le> length (stdin w1)" and "same_log v v'"
        with short show "fst (check_loop ucd a2 v) = fst (check_loop ucd a2 v')
          \<and> same_log (snd (check_loop ucd a2 v)) (snd (check_loop ucd a2 v'))"
          by (intro less.hyps) simp_all
      qed
    qed
  qed
qed

lemma score_range: "0 \<le> score_password_default p \<and> score_password_default p \<le> 5"
  unfolding score_password_default_sum by (rule of_bool_sum_range)

definition one_entry :: "int \<Rightarrow> world \<Rightarrow> world \<Rightarrow> bool" where
  "one_entry a w w' \<longleftrightarrow>
     logfile w' = logfile w
     \<or> (\<exists>n s. a < n \<and> 0 \<le> s \<and> s \<le> 5
          \<and> logfile w' = logfile w @ [log_line (clock w (ticks w)) n s (rating_from_score s)])"

lemma one_entry_io:
  assumes "io_only w v" "one_entry b v w'" "a \<le> b"
  shows "one_entry a w w'"
proof -
  from assms(1) have same: "logfile v = logfile w" "clock v = clock w" "ticks v = ticks w"
    by (simp_all add: io_only_def)
  from assms(2) show ?thesis
    unfolding one_entry_def same
  proof
    assume "logfile w' = logfile w"
    then show "logfile w' = logfile w
     \<or> (\<exists>n s. a < n \<and> 0 \<le> s \<and> s \<le> 5
          \<and> logfile w' = logfile w @ [log_line (clock w (ticks w)) n s (rating_from_score s)])"
      by (rule disjI1)
  next
    assume "\<exists>n s. b < n \<and> 0 \<le> s \<and> s \<le> 5
          \<and> logfile w' = logfile w @ [log_line (clock w (ticks w)) n s (rating_from_score s)]"
    then obtain n s where "b < n" "0 \<le> s" "s \<le> 5"
      "logfile w' = logfile w @ [log_line (clock w (ticks w)) n s (rating_from_score s)]"
      by blast
    with assms(3) have "a < n \<and> 0 \<le> s \<and> s \<le> 5
          \<and> logfile w' = logfile w @ [log_line (clock w (ticks w)) n s (rating_from_score s)]"
      by simp
    then show "logfile w' = logfile w
     \<or> (\<exists>n s. a < n \<and> 0 \<le> s \<and> s \<le> 5
          \<and> logfile w' = logfile w @ [log_line (clock w (ticks w)) n s (rating_from_score s)])"
      by blast
  qed
qed

lemma one_entry_same: "io_only w w' \<Longrightarrow> one_entry a w w'"
  by (simp add: one_entry_def io_only_def)

lemma io_only_spinner: "io_only w w1 \<Longrightarrow> io_only w (spinner w1)"
  by (simp add: spinner_def io_only_emit)

lemma io_only_failed_world: "io_only w w1 \<Longrightarrow> io_only w (failed_world pw m w1)"
  by (simp add: failed_world_def io_only_emit io_only_spinner)

lemma one_entry_logged:
  assumes "io_only w v"
  shows "one_entry a w
     (emit m (log_attempt (a + 1) (score_password_default p)
        (rating_from_score (score_password_default p)) v))"
proof -
  from assms have same: "logfile v = logfile w" "clock v = clock w" "ticks v = ticks w"
    by (simp_all add: io_only_def)
  have "a < a + 1 \<and> 0 \<le> score_password_default p \<and> score_password_default p \<le> 5
      \<and> logfile (emit m (log_attempt (a + 1) (score_password_default p)
           (rating_from_score (score_password_default p)) v))
        = logfile w @ [log_line (clock w (ticks w)) (a + 1) (score_password_default p)
             (rating_from_score (score_password_default p))]"
    using score_range [of p] by (simp add: same)
  then show ?thesis unfolding one_entry_def by blast
qed

lemma check_loop_one_entry: "one_entry a w (snd (check_loop ucd a w))"
proof (induction "length (stdin w)" arbitrary: w a rule: less_induct)
  case less
  obtain r w1 where sg: "safe_getpass PasswordPrompt w = (r, w1)"
    by (cases "safe_getpass PasswordPrompt w")
  have io1: "io_only w w1"
    using safe_getpass_io [of w PasswordPrompt] sg by simp
  show ?case
  proof (cases r)
    case Blocked
    with sg io1 show ?thesis by (simp add: check_loop_Blocked one_entry_same)
  next
    case (Raised e)
    with sg io1 show ?thesis by (simp add: check_loop_Raised one_entry_same)
  next
    case (Returned pw)
    with sg have sg': "safe_getpass PasswordPrompt w = (Returned pw, w1)" by simp
    then have short: "length (stdin w1) < length (stdin w)" by (rule safe_getpass_shorter)
    show ?thesis
    proof (cases "py_strip pw = []")
      case True
      have "one_entry a (emit MsgEmpty w1) (snd (check_loop ucd a (emit MsgEmpty w1)))"
        using short by (intro less.hyps) simp
      with io_only_emit [OF io1] have "one_entry a w (snd (check_loop ucd a (emit MsgEmpty w1)))"
        by (rule one_entry_io) simp
      then show ?thesis unfolding check_loop_blank [OF sg' True] .
    next
      case False
      show ?thesis
      proof (cases "validation_chain pw")
        case None
        have "io_only w (emit (MsgScoreFire (score_password_default pw)
                      (rating_from_score (score_password_default pw)))
                (emit (MsgHurray (a + 1)) (spinner (emit MsgChecking w1))))"
          using io1 by (intro io_only_emit io_only_spinner)
        then show ?thesis
          unfolding check_loop_success [OF sg' False None] snd_conv by (rule one_entry_logged)
      next
        case (Some reason)
        let ?f = "failed_world pw reason w1"
        obtain r2 w5 where yn: "ask_yes_no ucd RetryPrompt ?f = (r2, w5)"
          by (cases "ask_yes_no ucd RetryPrompt ?f")
        have "io_only ?f w5"
          using ask_yes_no_io [of ?f ucd RetryPrompt] yn by simp
        with io_only_failed_world [OF io1] have io5: "io_only w w5" by (rule io_only_trans)
        have len5: "length (stdin w5) < length (stdin w)"
          using io_only_length [OF \<open>io_only ?f w5\<close>] short by simp
        show ?thesis
        proof (cases r2)
          case Blocked
          with yn have "ask_yes_no ucd RetryPrompt ?f = (Blocked, w5)" by simp
          from check_loop_failure_Blocked [OF sg' False Some this] io5 show ?thesis
            by (simp add: one_entry_same)
        next
          case (Raised e)
          with yn have "ask_yes_no ucd RetryPrompt ?f = (Raised e, w5)" by simp
          from check_loop_failure_Raised [OF sg' False Some this] io5 show ?thesis
            by (simp add: one_entry_same)
        next
          case (Returned retry_yes)
          show ?thesis
          proof (cases retry_yes)
            case False
            with yn Returned have ynF: "ask_yes_no ucd RetryPrompt ?f = (Returned False, w5)"
              by simp
            have "io_only w (emit MsgAllDone w5)" using io5 by (rule io_only_emit)
            then have "one_entry a w
                (emit MsgLogSaved (log_attempt (a + 1) (score_password_default pw)
                   (rating_from_score (score_password_default pw)) (emit MsgAllDone w5)))"
              by (rule one_entry_logged)
            then show ?thesis
              unfolding check_loop_failure_no [OF sg' \<open>py_strip pw \<noteq> []\<close> Some ynF] snd_conv
              by (simp add: one_entry_def)
          next
            case True
            with yn Returned have ynT: "ask_yes_no ucd RetryPrompt ?f = (Returned True, w5)"
              by simp
            have "one_entry (a + 1) (emit MsgBlank w5)
                (snd (check_loop ucd (a + 1) (emit MsgBlank w5)))"
              using len5 by (intro less.hyps) simp
            with io_only_emit [OF io5]
            have "one_entry a w (snd (check_loop ucd (a + 1) (emit MsgBlank w5)))"
              by (rule one_entry_io) simp
            then show ?thesis
              unfolding check_loop_failure_yes [OF sg' \<open>py_strip pw \<noteq> []\<close> Some ynT] .
          qed
        qed
      qed
    qed
  qed
qed

lemma abcdefgh_facts:
  "py_strip (ustr ''abcdefgh'') \<noteq> []"
  "score_password_default (ustr ''abcdefgh'') = 2"
  "validation_chain (ustr ''abcdefgh'') = Some MsgNoUpper"
  by (simp_all add: ustr_def py_strip_def py_isspace_def score_password_default_sum
      validation_chain_unfold)

lemma v1_getpass_loop_Nil:
  "stdin w = [] \<Longrightarrow> v1_getpass_loop w = (Blocked, emit (Prompt PasswordPrompt) w)"
  by (subst v1_getpass_loop.simps) (simp add: py_getpass_def read_term_Nil)

lemma v1_getpass_loop_Line:
  "stdin w = Line s # rest \<Longrightarrow>
     v1_getpass_loop w = (Returned s, consume PasswordPrompt w)"
  by (subst v1_getpass_loop.simps) (simp add: py_getpass_def read_term_Cons)

lemma v1_getpass_loop_Interrupted:
  "stdin w = Raise Interrupted # rest \<Longrightarrow>
     v1_getpass_loop w = v1_getpass_loop (emit V1Interrupted (consume PasswordPrompt w))"
  by (subst v1_getpass_loop.simps) (simp add: py_getpass_def read_term_Cons)

lemma v1_getpass_loop_Other_Nil:
  "stdin w = [Raise OtherError] \<Longrightarrow>
     v1_getpass_loop w =
       (Blocked, emit (Prompt PasswordPrompt) (emit V1Fallback (consume PasswordPrompt w)))"
  by (subst v1_getpass_loop.simps)
    (simp add: py_getpass_def py_input_def read_term_Cons read_term_Nil)

lemma v1_getpass_loop_Other_Line:
  "stdin w = Raise OtherError # Line s # rest \<Longrightarrow>
     v1_getpass_loop w =
       (Returned s, consume PasswordPrompt (emit V1Fallback (consume PasswordPrompt w)))"
  by (subst v1_getpass_loop.simps) (simp add: py_getpass_def py_input_def read_term_Cons)

lemma v1_getpass_loop_Other_Interrupted:
  "stdin w = Raise OtherError # Raise Interrupted # rest \<Longrightarrow>
     v1_getpass_loop w =
       v1_getpass_loop
         (emit V1Interrupted (consume PasswordPrompt (emit V1Fallback (consume PasswordPrompt w))))"
  by (subst v1_getpass_loop.simps) (simp add: py_getpass_def py_input_def read_term_Cons)

lemma v1_getpass_loop_Other_Other:
  "stdin w = Raise OtherError # Raise OtherError # rest \<Longrightarrow>
     v1_getpass_loop w =
       (Raised OtherError, consume PasswordPrompt (emit V1Fallback (consume PasswordPrompt w)))"
  by (subst v1_getpass_loop.simps) (simp add: py_getpass_def py_input_def read_term_Cons)

section \<open>Version 1.0 against version 2.0\<close>

text \<open>
  What is compared between the two versions: the blocking reasons and score lines, in
  the order printed, and the closing messages (success, log saved, all done, thanks),
  in the order printed. On a success version 1.0 prints the score line before the
  success message and version 2.0 after it, and some notices are worded differently;
  the two projections are blind to both.
\<close>

definition is_feedback :: "msg \<Rightarrow> bool" where
  "is_feedback m \<longleftrightarrow>
     (case m of
        MsgTooShort \<Rightarrow> True | MsgNoUpper \<Rightarrow> True | MsgNoLower \<Rightarrow> True
      | MsgNoDigit \<Rightarrow> True | MsgNoSymbol \<Rightarrow> True
      | MsgScoreFire s r \<Rightarrow> True | MsgScoreWarn s r \<Rightarrow> True
      | _ \<Rightarrow> False)"

definition is_closing :: "msg \<Rightarrow> bool" where
  "is_closing m \<longleftrightarrow>
     (case m of
        MsgHurray n \<Rightarrow> True | MsgLogSaved \<Rightarrow> True | MsgAllDone \<Rightarrow> True | MsgThanks n \<Rightarrow> True
      | _ \<Rightarrow> False)"

definition agree :: "world \<Rightarrow> world \<Rightarrow> bool" where
  "agree w v \<longleftrightarrow>
     stdin w = stdin v \<and> logfile w = logfile v \<and> clock w = clock v \<and> ticks w = ticks v
     \<and> filter is_feedback (stdout w) = filter is_feedback (stdout v)
     \<and> filter is_closing (stdout w) = filter is_closing (stdout v)"

lemma agree_emit_quiet:
  "agree w v \<Longrightarrow> \<not> is_feedback m \<Longrightarrow> \<not> is_closing m \<Longrightarrow> \<not> is_feedback m' \<Longrightarrow>
   \<not> is_closing m' \<Longrightarrow> agree (emit m w) (emit m' v)"
  by (simp add: agree_def)

lemma agree_emit: "agree w v \<Longrightarrow> agree (emit m w) (emit m v)"
  by (simp add: agree_def)

lemma agree_consume: "agree w v \<Longrightarrow> agree (consume p w) (consume p v)"
  by (simp add: agree_def is_feedback_def is_closing_def)

lemma quiet_msgs [simp]:
  "\<not> is_feedback V1Interrupted" "\<not> is_closing V1Interrupted"
  "\<not> is_feedback MsgInterrupted" "\<not> is_closing MsgInterrupted"
  "\<not> is_feedback V1Fallback" "\<not> is_closing V1Fallback"
  "\<not> is_feedback MsgFallback" "\<not> is_closing MsgFallback"
  "\<not> is_feedback V1NotYesNo" "\<not> is_closing V1NotYesNo"
  "\<not> is_feedback MsgNotYesNo" "\<not> is_closing MsgNotYesNo"
  "\<not> is_feedback MsgInterruptedYN" "\<not> is_closing MsgInterruptedYN"
  "\<not> is_feedback (Prompt p)" "\<not> is_closing (Prompt p)"
  "\<not> is_feedback MsgBlank" "\<not> is_closing MsgBlank"
  by (simp_all add: is_feedback_def is_closing_def)

lemma v1_getpass_agrees:
  "agree w v \<Longrightarrow>
     fst (v1_getpass_loop w) = fst (safe_getpass PasswordPrompt v)
     \<and> agree (snd (v1_getpass_loop w)) (snd (safe_getpass PasswordPrompt v))"
proof (induction "length (stdin w)" arbitrary: w v rule: less_induct)
  case less
  note ag = less.prems
  then have eq: "stdin v = stdin w" by (simp add: agree_def)
  let ?P = PasswordPrompt
  show ?case
  proof (cases "stdin w" rule: script_cases)
    case 1
    then have a: "stdin w = []" and b: "stdin v = []" using eq by simp_all
    show ?thesis
      unfolding v1_getpass_loop_Nil [OF a] safe_getpass_Nil [OF b]
      using ag by (simp add: agree_emit)
  next
    case (2 s rest)
    then have a: "stdin w = Line s # rest" and b: "stdin v = Line s # rest"
      using eq by simp_all
    show ?thesis
      unfolding v1_getpass_loop_Line [OF a] safe_getpass_Line [OF b]
      using ag by (simp add: agree_consume)
  next
    case (3 rest)
    then have a: "stdin w = Raise Interrupted # rest"
      and b: "stdin v = Raise Interrupted # rest" using eq by simp_all
    let ?w = "emit V1Interrupted (consume ?P w)" and ?v = "emit MsgInterrupted (consume ?P v)"
    have "agree ?w ?v" using ag by (intro agree_emit_quiet agree_consume) simp_all
    moreover have "length (stdin ?w) < length (stdin w)" using a by simp
    ultimately have "fst (v1_getpass_loop ?w) = fst (safe_getpass ?P ?v)
        \<and> agree (snd (v1_getpass_loop ?w)) (snd (safe_getpass ?P ?v))"
      by (intro less.hyps)
    then show ?thesis
      unfolding v1_getpass_loop_Interrupted [OF a] safe_getpass_Interrupted [OF b] .
  next
    case 4
    then have a: "stdin w = [Raise OtherError]" and b: "stdin v = [Raise OtherError]"
      using eq by simp_all
    have "agree (emit (Prompt ?P) (emit V1Fallback (consume ?P w)))
        (emit (Prompt ?P) (emit MsgFallback (consume ?P v)))"
      using ag by (intro agree_emit agree_emit_quiet agree_consume) simp_all
    then show ?thesis
      unfolding v1_getpass_loop_Other_Nil [OF a] safe_getpass_Other_Nil [OF b] by simp
  next
    case (5 s rest)
    then have a: "stdin w = Raise OtherError # Line s # rest"
      and b: "stdin v = Raise OtherError # Line s # rest" using eq by simp_all
    have "agree (consume ?P (emit V1Fallback (consume ?P w)))
        (consume ?P (emit MsgFallback (consume ?P v)))"
      using ag by (intro agree_emit_quiet agree_consume) simp_all
    then show ?thesis
      unfolding v1_getpass_loop_Other_Line [OF a] safe_getpass_Other_Line [OF b] by simp
  next
    case (6 rest)
    then have a: "stdin w = Raise OtherError # Raise Interrupted # rest"
      and b: "stdin v = Raise OtherError # Raise Interrupted # rest" using eq by simp_all
    let ?w = "emit V1Interrupted (consume ?P (emit V1Fallback (consume ?P w)))"
    let ?v = "emit MsgInterrupted (consume ?P (emit MsgFallback (consume ?P v)))"
    have "agree ?w ?v" using ag by (intro agree_emit_quiet agree_consume) simp_all
    moreover have "length (stdin ?w) < length (stdin w)" using a by simp
    ultimately have "fst (v1_getpass_loop ?w) = fst (safe_getpass ?P ?v)
        \<and> agree (snd (v1_getpass_loop ?w)) (snd (safe_getpass ?P ?v))"
      by (intro less.hyps)
    then show ?thesis
      unfolding v1_getpass_loop_Other_Interrupted [OF a] safe_getpass_Other_Interrupted [OF b] .
  next
    case (7 rest)
    then have a: "stdin w = Raise OtherError # Raise OtherError # rest"
      and b: "stdin v = Raise OtherError # Raise OtherError # rest" using eq by simp_all
    have "agree (consume ?P (emit V1Fallback (consume ?P w)))
        (consume ?P (emit MsgFallback (consume ?P v)))"
      using ag by (intro agree_emit_quiet agree_consume) simp_all
    then show ?thesis
      unfolding v1_getpass_loop_Other_Other [OF a] safe_getpass_Other_Other [OF b] by simp
  qed
qed

lemma agree_refl [simp]: "agree w w"
  by (simp add: agree_def)

lemma v1_getpass_loop_shorter:
  "v1_getpass_loop w = (Returned s, w1) \<Longrightarrow> length (stdin w1) < length (stdin w)"
proof -
  assume r: "v1_getpass_loop w = (Returned s, w1)"
  obtain r2 v1 where sg: "safe_getpass PasswordPrompt w = (r2, v1)"
    by (cases "safe_getpass PasswordPrompt w")
  from v1_getpass_agrees [OF agree_refl, of w] r sg
  have "r2 = Returned s" and "agree w1 v1" by simp_all
  with sg have "length (stdin v1) < length (stdin w)" and "stdin w1 = stdin v1"
    by (auto simp add: agree_def dest: safe_getpass_shorter)
  then show ?thesis by simp
qed

lemma v1_retry_loop_Nil:
  "stdin w = [] \<Longrightarrow> v1_retry_loop ucd n s w = (Blocked, emit (Prompt RetryPrompt) w)"
  by (subst v1_retry_loop.simps) (simp add: py_input_def read_term_Nil)

lemma v1_retry_loop_Raise:
  "stdin w = Raise e # rest \<Longrightarrow>
     v1_retry_loop ucd n s w = (Raised e, consume RetryPrompt w)"
  by (subst v1_retry_loop.simps) (simp add: py_input_def read_term_Cons)

lemma v1_retry_loop_Line:
  "stdin w = Line ans # rest \<Longrightarrow>
     v1_retry_loop ucd n s w =
       (if norm_answer ucd ans \<in> valid_yes then
          (Returned True, emit MsgBlank (consume RetryPrompt w))
        else if norm_answer ucd ans \<in> valid_no then
          (Returned False,
           v1_write_log n s (emit (MsgThanks n) (emit MsgAllDone (consume RetryPrompt w))))
        else v1_retry_loop ucd n s (emit V1NotYesNo (consume RetryPrompt w)))"
  by (subst v1_retry_loop.simps)
    (simp add: py_input_def read_term_Cons norm_answer_def Let_def valid_yes_def valid_no_def)

fun after_retry :: "bool outcome \<Rightarrow> int \<Rightarrow> int \<Rightarrow> world \<Rightarrow> world" where
  "after_retry (Returned True) n s v = emit MsgBlank v"
| "after_retry (Returned False) n s v =
     log_attempt n s (rating_from_score s) (emit (MsgThanks n) (emit MsgAllDone v))"
| "after_retry (Raised e) n s v = v"
| "after_retry Blocked n s v = v"

lemma v1_log_rating_eq: "v1_log_rating s = rating_from_score s"
  by (simp add: v1_log_rating_def rating_from_score_def)

lemma agree_write_log:
  "agree w v \<Longrightarrow> agree (v1_write_log n s w) (log_attempt n s (rating_from_score s) v)"
  by (simp add: agree_def v1_write_log_def log_attempt_def datetime_now_def emit_def
      v1_log_rating_eq)

lemma v1_retry_agrees:
  "agree w v \<Longrightarrow> v1_retry_loop ucd n s w = (r, w') \<Longrightarrow> r \<noteq> Raised Interrupted \<Longrightarrow>
     \<exists>v'. ask_yes_no ucd RetryPrompt v = (r, v') \<and> agree w' (after_retry r n s v')"
proof (induction "length (stdin w)" arbitrary: w v rule: less_induct)
  case less
  note ag = less.prems(1) and run = less.prems(2) and ok = less.prems(3)
  from ag have eq: "stdin v = stdin w" by (simp add: agree_def)
  let ?P = RetryPrompt
  show ?case
  proof (cases "stdin w")
    case Nil
    then have a: "stdin w = []" and b: "stdin v = []" using eq by simp_all
    from run have "r = Blocked" and "w' = emit (Prompt ?P) w"
      unfolding v1_retry_loop_Nil [OF a] by simp_all
    then show ?thesis
      unfolding ask_yes_no_Nil [OF b] using ag by (simp add: agree_emit)
  next
    case (Cons x rest)
    show ?thesis
    proof (cases x)
      case (Raise e)
      with Cons eq have a: "stdin w = Raise e # rest" and b: "stdin v = Raise e # rest"
        by simp_all
      from run have r: "r = Raised e" and w': "w' = consume ?P w"
        unfolding v1_retry_loop_Raise [OF a] by simp_all
      with ok have e: "e = OtherError" by (cases e) simp_all
      show ?thesis
        unfolding ask_yes_no_Other [OF b [unfolded e]] r w' e
        using ag by (simp add: agree_consume)
    next
      case (Line ans)
      with Cons eq have a: "stdin w = Line ans # rest" and b: "stdin v = Line ans # rest"
        by simp_all
      have agc: "agree (consume ?P w) (consume ?P v)" using ag by (rule agree_consume)
      consider (yes) "norm_answer ucd ans \<in> valid_yes"
        | (no) "norm_answer ucd ans \<notin> valid_yes" "norm_answer ucd ans \<in> valid_no"
        | (bad) "norm_answer ucd ans \<notin> valid_yes" "norm_answer ucd ans \<notin> valid_no"
        by blast
      then show ?thesis
      proof cases
        case yes
        from run have "r = Returned True" and "w' = emit MsgBlank (consume ?P w)"
          unfolding v1_retry_loop_Line [OF a] using yes by simp_all
        then show ?thesis
          unfolding ask_yes_no_Line [OF b] using yes agc by (simp add: agree_emit)
      next
        case no
        from run have "r = Returned False"
          and "w' = v1_write_log n s (emit (MsgThanks n) (emit MsgAllDone (consume ?P w)))"
          unfolding v1_retry_loop_Line [OF a] using no by simp_all
        then show ?thesis
          unfolding ask_yes_no_Line [OF b] using no agc
          by (simp add: agree_emit agree_write_log)
      next
        case bad
        let ?w = "emit V1NotYesNo (consume ?P w)" and ?v = "emit MsgNotYesNo (consume ?P v)"
        have "agree ?w ?v" using agc by (rule agree_emit_quiet) simp_all
        moreover have "length (stdin ?w) < length (stdin w)" using a by simp
        moreover from run have "v1_retry_loop ucd n s ?w = (r, w')"
          unfolding v1_retry_loop_Line [OF a] using bad by simp
        ultimately have "\<exists>v'. ask_yes_no ucd ?P ?v = (r, v') \<and> agree w' (after_retry r n s v')"
          using ok by (intro less.hyps)
        then show ?thesis
          unfolding ask_yes_no_Line [OF b] using bad by simp
      qed
    qed
  qed
qed

lemma stdin_after_retry [simp]: "stdin (after_retry r n s v) = stdin v"
proof (cases r)
  case (Returned b)
  then show ?thesis by (cases b) simp_all
qed simp_all

lemma v1_retry_loop_shorter:
  "v1_retry_loop ucd n s w = (Returned b, w') \<Longrightarrow> length (stdin w') < length (stdin w)"
proof -
  assume run: "v1_retry_loop ucd n s w = (Returned b, w')"
  from v1_retry_agrees [OF agree_refl run] obtain v' where
    yn: "ask_yes_no ucd RetryPrompt w = (Returned b, v')"
    and ag: "agree w' (after_retry (Returned b) n s v')" by auto
  from ag have "stdin w' = stdin v'" by (simp add: agree_def)
  with ask_yes_no_shorter [OF yn] show ?thesis by simp
qed

text \<open>
  The main loop of version 1.0, lines 41 to 175 of the script.
\<close>

function v1_loop :: "(pystr \<Rightarrow> pystr) \<Rightarrow> int \<Rightarrow> world \<Rightarrow> v1_end outcome \<times> world" where
  "v1_loop ucd attempts w =
     (case v1_getpass_loop w of
        (Blocked, w1) \<Rightarrow> (Blocked, w1)
      | (Raised e, w1) \<Rightarrow> (Raised e, w1)
      | (Returned password, w1) \<Rightarrow>
          if py_strip password = [] then v1_loop ucd attempts (emit MsgEmpty w1)
          else
            (let attempts = attempts + 1;
                 w2 = emit MsgSpinner (emit MsgChecking w1)
             in case validation_chain password of
                  None \<Rightarrow>
                    (let score = v1_score password;
                         w3 = emit (v1_show_rating score) w2;
                         w4 = emit (MsgHurray attempts) w3;
                         w5 = v1_write_log attempts score w4;
                         w6 = emit MsgAllDone w5
                     in (Returned EndOfScript, w6))
                | Some reason \<Rightarrow>
                    (let w3 = emit reason w2;
                         score = v1_score password;
                         w4 = emit (v1_show_rating score) w3
                     in case v1_retry_loop ucd attempts score w4 of
                          (Blocked, w5) \<Rightarrow> (Blocked, w5)
                        | (Raised e, w5) \<Rightarrow> (Raised e, w5)
                        | (Returned retry, w5) \<Rightarrow>
                            if retry then v1_loop ucd attempts w5
                            else (Returned (SystemExit 0), w5))))"
  by pat_completeness auto
termination
proof (relation "measure (\<lambda>(ucd, a, w). length (stdin w))")
  show "wf (measure (\<lambda>(ucd, a, w). length (stdin w)))" by simp
next
  fix ucd :: "pystr \<Rightarrow> pystr" and attempts :: int and w x1 w1 password
  assume "(x1, w1) = v1_getpass_loop w" "x1 = Returned password"
  then show "((ucd, attempts, emit MsgEmpty w1), (ucd, attempts, w))
      \<in> measure (\<lambda>(ucd, a, w). length (stdin w))"
    using v1_getpass_loop_shorter [of w password w1] by simp
next
  fix ucd :: "pystr \<Rightarrow> pystr" and attempts :: int and w x1 w1 password a' w2 reason w3 sc w4 x5 w5 retry
  assume "(x1, w1) = v1_getpass_loop w" "x1 = Returned password"
    and "w2 = emit MsgSpinner (emit MsgChecking w1)" "w3 = emit reason w2"
    and "w4 = emit (v1_show_rating sc) w3"
    and "(x5, w5) = v1_retry_loop ucd a' sc w4" "x5 = Returned retry"
  then show "((ucd, a', w5), (ucd, attempts, w)) \<in> measure (\<lambda>(ucd, a, w). length (stdin w))"
    using v1_getpass_loop_shorter [of w password w1]
      v1_retry_loop_shorter [of ucd a' sc w4 retry w5] by simp
qed

declare v1_loop.simps [simp del]

definition v1_main :: "(pystr \<Rightarrow> pystr) \<Rightarrow> world \<Rightarrow> v1_end outcome \<times> world" where
  "v1_main ucd w = v1_loop ucd 0 (emit MsgBanner w)"

lemma stdin_v1_write_log [simp]: "stdin (v1_write_log n s w) = stdin w"
  and stdout_v1_write_log [simp]: "stdout (v1_write_log n s w) = stdout w @ [MsgLogSaved]"
  and logfile_v1_write_log [simp]:
    "logfile (v1_write_log n s w) = logfile w @ [log_line (clock w (ticks w)) n s (v1_log_rating s)]"
  and clock_v1_write_log [simp]: "clock (v1_write_log n s w) = clock w"
  and ticks_v1_write_log [simp]: "ticks (v1_write_log n s w) = ticks w + 1"
  by (simp_all add: v1_write_log_def datetime_now_def emit_def)

definition v1_failed_world :: "pystr \<Rightarrow> msg \<Rightarrow> world \<Rightarrow> world" where
  "v1_failed_world pw reason w1 =
     emit (v1_show_rating (v1_score pw)) (emit reason (emit MsgSpinner (emit MsgChecking w1)))"

lemma v1_loop_Blocked:
  "v1_getpass_loop w = (Blocked, w1) \<Longrightarrow> v1_loop ucd a w = (Blocked, w1)"
  by (subst v1_loop.simps) simp

lemma v1_loop_Raised:
  "v1_getpass_loop w = (Raised e, w1) \<Longrightarrow> v1_loop ucd a w = (Raised e, w1)"
  by (subst v1_loop.simps) simp

lemma v1_loop_blank:
  "v1_getpass_loop w = (Returned pw, w1) \<Longrightarrow> py_strip pw = [] \<Longrightarrow>
     v1_loop ucd a w = v1_loop ucd a (emit MsgEmpty w1)"
  by (subst v1_loop.simps) simp

lemma v1_loop_success:
  "v1_getpass_loop w = (Returned pw, w1) \<Longrightarrow> py_strip pw \<noteq> [] \<Longrightarrow>
   validation_chain pw = None \<Longrightarrow>
     v1_loop ucd a w =
       (Returned EndOfScript,
        emit MsgAllDone
          (v1_write_log (a + 1) (v1_score pw)
             (emit (MsgHurray (a + 1))
                (emit (v1_show_rating (v1_score pw))
                   (emit MsgSpinner (emit MsgChecking w1))))))"
  by (subst v1_loop.simps) (simp add: Let_def)

lemma v1_loop_failure_Blocked:
  "v1_getpass_loop w = (Returned pw, w1) \<Longrightarrow> py_strip pw \<noteq> [] \<Longrightarrow>
   validation_chain pw = Some reason \<Longrightarrow>
   v1_retry_loop ucd (a + 1) (v1_score pw) (v1_failed_world pw reason w1) = (Blocked, w5) \<Longrightarrow>
     v1_loop ucd a w = (Blocked, w5)"
  by (subst v1_loop.simps) (simp add: Let_def v1_failed_world_def)

lemma v1_loop_failure_Raised:
  "v1_getpass_loop w = (Returned pw, w1) \<Longrightarrow> py_strip pw \<noteq> [] \<Longrightarrow>
   validation_chain pw = Some reason \<Longrightarrow>
   v1_retry_loop ucd (a + 1) (v1_score pw) (v1_failed_world pw reason w1) = (Raised e, w5) \<Longrightarrow>
     v1_loop ucd a w = (Raised e, w5)"
  by (subst v1_loop.simps) (simp add: Let_def v1_failed_world_def)

lemma v1_loop_failure_exit:
  "v1_getpass_loop w = (Returned pw, w1) \<Longrightarrow> py_strip pw \<noteq> [] \<Longrightarrow>
   validation_chain pw = Some reason \<Longrightarrow>
   v1_retry_loop ucd (a + 1) (v1_score pw) (v1_failed_world pw reason w1)
     = (Returned False, w5) \<Longrightarrow>
     v1_loop ucd a w = (Returned (SystemExit 0), w5)"
  by (subst v1_loop.simps) (simp add: Let_def v1_failed_world_def)

lemma v1_loop_failure_retry:
  "v1_getpass_loop w = (Returned pw, w1) \<Longrightarrow> py_strip pw \<noteq> [] \<Longrightarrow>
   validation_chain pw = Some reason \<Longrightarrow>
   v1_retry_loop ucd (a + 1) (v1_score pw) (v1_failed_world pw reason w1)
     = (Returned True, w5) \<Longrightarrow>
     v1_loop ucd a w = v1_loop ucd (a + 1) w5"
  by (subst v1_loop.simps) (simp add: Let_def v1_failed_world_def)

lemma v1_show_rating_below_5:
  "s < 5 \<Longrightarrow> v1_show_rating s = MsgScoreWarn s (rating_from_score s)"
  by (auto simp add: v1_show_rating_def rating_from_score_def)

lemma v1_show_rating_5: "v1_show_rating 5 = MsgScoreFire 5 (rating_from_score 5)"
  by (simp add: v1_show_rating_def rating_from_score_def)

lemma failing_score_below_5:
  "validation_chain pw = Some reason \<Longrightarrow> score_password_default pw < 5"
  using validation_chain_None_iff [of pw] score_range [of pw] by auto

lemma agree_failed_world:
  assumes "agree w1 v1" "validation_chain pw = Some reason"
  shows "agree (v1_failed_world pw reason w1) (failed_world pw reason v1)"
proof -
  have "v1_show_rating (v1_score pw) =
      MsgScoreWarn (score_password_default pw) (rating_from_score (score_password_default pw))"
    using failing_score_below_5 [OF assms(2)] by (simp add: v1_score_eq v1_show_rating_below_5)
  then show ?thesis
    using assms(1)
    by (simp add: v1_failed_world_def failed_world_def agree_emit spinner_def)
qed

lemma agree_success_world:
  assumes "agree w1 v1" "validation_chain pw = None"
  shows "agree
     (emit MsgAllDone
        (v1_write_log n (v1_score pw)
           (emit (MsgHurray n)
              (emit (v1_show_rating (v1_score pw)) (emit MsgSpinner (emit MsgChecking w1))))))
     (emit MsgAllDone
        (log_attempt n (score_password_default pw)
           (rating_from_score (score_password_default pw))
           (emit (MsgScoreFire (score_password_default pw)
                    (rating_from_score (score_password_default pw)))
              (emit (MsgHurray n) (spinner (emit MsgChecking v1))))))"
proof -
  have five: "score_password_default pw = 5"
    using assms(2) by (simp add: validation_chain_None_iff)
  show ?thesis
    using assms(1)
    by (simp add: agree_def v1_score_eq five v1_show_rating_5 v1_log_rating_eq
        is_feedback_def is_closing_def)
qed

definition session_end :: "'a outcome \<Rightarrow> unit outcome" where
  "session_end r = (case r of Returned x \<Rightarrow> Returned () | Raised e \<Rightarrow> Raised e | Blocked \<Rightarrow> Blocked)"

lemma v1_loop_agrees:
  "agree w v \<Longrightarrow> fst (v1_loop ucd a w) \<noteq> Raised Interrupted \<Longrightarrow>
     session_end (fst (v1_loop ucd a w)) = fst (check_loop ucd a v)
     \<and> agree (snd (v1_loop ucd a w)) (snd (check_loop ucd a v))"
proof (induction "length (stdin w)" arbitrary: w v a rule: less_induct)
  case less
  note ag = less.prems(1) and ok = less.prems(2)
  let ?P = PasswordPrompt
  obtain r w1 where g: "v1_getpass_loop w = (r, w1)"
    by (cases "v1_getpass_loop w")
  obtain r' v1 where sg: "safe_getpass ?P v = (r', v1)"
    by (cases "safe_getpass ?P v")
  from v1_getpass_agrees [OF ag] g sg have r': "r' = r" and ag1: "agree w1 v1" by simp_all
  show ?case
  proof (cases r)
    case Blocked
    from g sg r' Blocked have "v1_getpass_loop w = (Blocked, w1)"
      and "safe_getpass ?P v = (Blocked, v1)" by simp_all
    then show ?thesis
      using ag1 by (simp add: v1_loop_Blocked check_loop_Blocked session_end_def)
  next
    case (Raised e)
    from g sg r' Raised have "v1_getpass_loop w = (Raised e, w1)"
      and "safe_getpass ?P v = (Raised e, v1)" by simp_all
    then show ?thesis
      using ag1 by (simp add: v1_loop_Raised check_loop_Raised session_end_def)
  next
    case (Returned pw)
    from g sg r' Returned have gR: "v1_getpass_loop w = (Returned pw, w1)"
      and sgR: "safe_getpass ?P v = (Returned pw, v1)" by simp_all
    have short: "length (stdin w1) < length (stdin w)"
      using gR by (rule v1_getpass_loop_shorter)
    show ?thesis
    proof (cases "py_strip pw = []")
      case True
      have "session_end (fst (v1_loop ucd a (emit MsgEmpty w1)))
            = fst (check_loop ucd a (emit MsgEmpty v1))
          \<and> agree (snd (v1_loop ucd a (emit MsgEmpty w1)))
              (snd (check_loop ucd a (emit MsgEmpty v1)))"
      proof (rule less.hyps)
        show "length (stdin (emit MsgEmpty w1)) < length (stdin w)" using short by simp
        show "agree (emit MsgEmpty w1) (emit MsgEmpty v1)" using ag1 by (rule agree_emit)
        show "fst (v1_loop ucd a (emit MsgEmpty w1)) \<noteq> Raised Interrupted"
          using ok unfolding v1_loop_blank [OF gR True] .
      qed
      then show ?thesis
        unfolding v1_loop_blank [OF gR True] check_loop_blank [OF sgR True] .
    next
      case False
      show ?thesis
      proof (cases "validation_chain pw")
        case None
        show ?thesis
          unfolding v1_loop_success [OF gR False None] check_loop_success [OF sgR False None]
          using agree_success_world [OF ag1 None, of "a + 1"] by (simp add: session_end_def)
      next
        case (Some reason)
        let ?f = "v1_failed_world pw reason w1" and ?g = "failed_world pw reason v1"
        have agf: "agree ?f ?g" using ag1 Some by (rule agree_failed_world)
        obtain r2 w5 where run: "v1_retry_loop ucd (a + 1) (v1_score pw) ?f = (r2, w5)"
          by (cases "v1_retry_loop ucd (a + 1) (v1_score pw) ?f")
        have r2_ok: "r2 \<noteq> Raised Interrupted"
        proof
          assume "r2 = Raised Interrupted"
          with run have "v1_loop ucd a w = (Raised Interrupted, w5)"
            using v1_loop_failure_Raised [OF gR False Some] by simp
          with ok show False by simp
        qed
        from v1_retry_agrees [OF agf run r2_ok] obtain v5 where
          yn: "ask_yes_no ucd RetryPrompt ?g = (r2, v5)"
          and ag5: "agree w5 (after_retry r2 (a + 1) (v1_score pw) v5)" by blast
        show ?thesis
        proof (cases r2)
          case Blocked
          from run yn Blocked
          have "v1_retry_loop ucd (a + 1) (v1_score pw) ?f = (Blocked, w5)"
            and "ask_yes_no ucd RetryPrompt ?g = (Blocked, v5)" by simp_all
          then show ?thesis
            using ag5 Blocked
            by (simp add: v1_loop_failure_Blocked [OF gR False Some]
                check_loop_failure_Blocked [OF sgR False Some] session_end_def)
        next
          case (Raised e)
          from run yn Raised
          have "v1_retry_loop ucd (a + 1) (v1_score pw) ?f = (Raised e, w5)"
            and "ask_yes_no ucd RetryPrompt ?g = (Raised e, v5)" by simp_all
          then show ?thesis
            using ag5 Raised
            by (simp add: v1_loop_failure_Raised [OF gR False Some]
                check_loop_failure_Raised [OF sgR False Some] session_end_def)
        next
          case (Returned retry)
          show ?thesis
          proof (cases retry)
            case False
            from run yn Returned False
            have "v1_retry_loop ucd (a + 1) (v1_score pw) ?f = (Returned False, w5)"
              and "ask_yes_no ucd RetryPrompt ?g = (Returned False, v5)" by simp_all
            then show ?thesis
              using ag5 Returned False
              by (simp add: v1_loop_failure_exit [OF gR \<open>py_strip pw \<noteq> []\<close> Some]
                  check_loop_failure_no [OF sgR \<open>py_strip pw \<noteq> []\<close> Some]
                  session_end_def v1_score_eq)
          next
            case True
            from run yn Returned True
            have runT: "v1_retry_loop ucd (a + 1) (v1_score pw) ?f = (Returned True, w5)"
              and ynT: "ask_yes_no ucd RetryPrompt ?g = (Returned True, v5)" by simp_all
            note v1_step = v1_loop_failure_retry [OF gR \<open>py_strip pw \<noteq> []\<close> Some runT]
            note v2_step = check_loop_failure_yes [OF sgR \<open>py_strip pw \<noteq> []\<close> Some ynT]
            have "session_end (fst (v1_loop ucd (a + 1) w5))
                  = fst (check_loop ucd (a + 1) (emit MsgBlank v5))
                \<and> agree (snd (v1_loop ucd (a + 1) w5))
                    (snd (check_loop ucd (a + 1) (emit MsgBlank v5)))"
            proof (rule less.hyps)
              have "length (stdin w5) < length (stdin ?f)"
                using runT by (rule v1_retry_loop_shorter)
              then show "length (stdin w5) < length (stdin w)"
                using short by (simp add: v1_failed_world_def)
              show "agree w5 (emit MsgBlank v5)"
                using ag5 Returned True by simp
              show "fst (v1_loop ucd (a + 1) w5) \<noteq> Raised Interrupted"
                using ok unfolding v1_step .
            qed
            then show ?thesis unfolding v1_step v2_step .
          qed
        qed
      qed
    qed
  qed
qed

lemma main_loop_not_returned:
  "fst (run_password_check ucd w) \<noteq> Returned () \<Longrightarrow>
     main_loop ucd w = run_password_check ucd w"
  by (subst main_loop.simps)
    (cases "run_password_check ucd w" rule: prod.exhaust,
     auto split: outcome.splits)

lemma main_loop_again:
  "run_password_check ucd w = (Returned (), w1) \<Longrightarrow>
   ask_yes_no ucd AnotherPrompt w1 = (Returned True, w2) \<Longrightarrow>
     main_loop ucd w = main_loop ucd (emit MsgBlank w2)"
  by (subst main_loop.simps) simp

lemma main_loop_done:
  "run_password_check ucd w = (Returned (), w1) \<Longrightarrow>
   ask_yes_no ucd AnotherPrompt w1 = (Returned False, w2) \<Longrightarrow>
     main_loop ucd w = (Returned (), emit MsgBye w2)"
  by (subst main_loop.simps) simp

lemma v1_loop_success_world:
  assumes "stdin w = Line pw # rest" "py_strip pw \<noteq> []" "score_password_default pw = 5"
  shows "v1_loop ucd a w =
     (Returned EndOfScript,
      w\<lparr>stdin := rest,
        stdout := stdout w @
          [Prompt PasswordPrompt, MsgChecking, MsgSpinner, MsgScoreFire 5 ''Strong'',
           MsgHurray (a + 1), MsgLogSaved, MsgAllDone],
        logfile := logfile w @ [log_line (clock w (ticks w)) (a + 1) 5 ''Strong''],
        ticks := ticks w + 1\<rparr>)"
proof -
  have g: "v1_getpass_loop w = (Returned pw, consume PasswordPrompt w)"
    using assms(1) by (rule v1_getpass_loop_Line)
  have none: "validation_chain pw = None"
    using assms(3) by (simp add: validation_chain_None_iff)
  have sc: "v1_score pw = 5" using assms(3) by (simp add: v1_score_eq)
  have sr: "v1_show_rating 5 = MsgScoreFire 5 ''Strong''"
    by (simp add: v1_show_rating_def)
  have lr: "v1_log_rating 5 = ''Strong''" by (simp add: v1_log_rating_def)
  show ?thesis
    unfolding v1_loop_success [OF g assms(2) none] sc sr
    using assms(1)
    by (simp add: emit_def v1_write_log_def datetime_now_def consume_def lr)
qed

text \<open>
  A user who types a strong password, asks for another check, types it again and
  declines a third check.
\<close>

definition two_checks :: "read_result list" where
  "two_checks =
     [Line (ustr ''Str0ng!Pass''), Line (ustr ''y''), Line (ustr ''Str0ng!Pass''),
      Line (ustr ''n'')]"

lemma short_answers:
  "norm_answer id (ustr ''y'') \<in> valid_answers"
  "norm_answer id (ustr ''y'') \<in> valid_yes"
  "norm_answer id (ustr ''n'') \<in> valid_answers"
  "norm_answer id (ustr ''n'') \<notin> valid_yes"
  by (simp_all add: norm_answer_def py_lower_def py_strip_def py_isspace_def ascii_lower_def
      ustr_def valid_answers_def valid_yes_def)

lemma v1_two_checks:
  "fst (v1_main id (initial_world two_checks)) = Returned EndOfScript
   \<and> logfile (snd (v1_main id (initial_world two_checks)))
      = [log_line (clock (initial_world []) 0) 1 5 ''Strong'']
   \<and> filter is_feedback (stdout (snd (v1_main id (initial_world two_checks))))
      = [MsgScoreFire 5 ''Strong'']
   \<and> stdin (snd (v1_main id (initial_world two_checks)))
      = [Line (ustr ''y''), Line (ustr ''Str0ng!Pass''), Line (ustr ''n'')]"
proof -
  let ?W0 = "emit MsgBanner (initial_world two_checks)"
  have st: "stdin ?W0 = Line (ustr ''Str0ng!Pass'')
      # [Line (ustr ''y''), Line (ustr ''Str0ng!Pass''), Line (ustr ''n'')]"
    by (simp add: initial_world_def two_checks_def)
  show ?thesis
    unfolding v1_main_def v1_loop_success_world [OF st strong_pass_facts, of id 0]
    by (simp add: initial_world_def is_feedback_def)
qed

lemma v2_two_checks:
  "fst (main id (initial_world two_checks)) = Returned ()
   \<and> logfile (snd (main id (initial_world two_checks)))
      = [log_line (clock (initial_world []) 0) 1 5 ''Strong'',
         log_line (clock (initial_world []) 1) 1 5 ''Strong'']
   \<and> filter is_feedback (stdout (snd (main id (initial_world two_checks))))
      = [MsgScoreFire 5 ''Strong'', MsgScoreFire 5 ''Strong'']
   \<and> stdin (snd (main id (initial_world two_checks))) = []"
proof -
  let ?pw = "ustr ''Str0ng!Pass''"
  let ?out = "\<lambda>n. [Prompt PasswordPrompt, MsgChecking, MsgSpinner, MsgHurray n,
                  MsgScoreFire 5 ''Strong'', MsgLogSaved, MsgAllDone]"
  define W0 where "W0 = emit MsgBanner (initial_world two_checks)"
  define W1 where "W1 = W0\<lparr>stdin := [Line (ustr ''y''), Line ?pw, Line (ustr ''n'')],
        stdout := stdout W0 @ ?out (0 + 1),
        logfile := logfile W0 @ [log_line (clock W0 (ticks W0)) (0 + 1) 5 ''Strong''],
        ticks := ticks W0 + 1\<rparr>"
  define W2 where "W2 = W1\<lparr>stdin := [Line ?pw, Line (ustr ''n'')],
        stdout := stdout W1 @ [Prompt AnotherPrompt]\<rparr>"
  define W2b where "W2b = emit MsgBlank W2"
  define W3 where "W3 = W2b\<lparr>stdin := [Line (ustr ''n'')],
        stdout := stdout W2b @ ?out (0 + 1),
        logfile := logfile W2b @ [log_line (clock W2b (ticks W2b)) (0 + 1) 5 ''Strong''],
        ticks := ticks W2b + 1\<rparr>"
  define W4 where "W4 = W3\<lparr>stdin := [], stdout := stdout W3 @ [Prompt AnotherPrompt]\<rparr>"
  have st0: "stdin W0 = Line ?pw # [Line (ustr ''y''), Line ?pw, Line (ustr ''n'')]"
    by (simp add: W0_def initial_world_def two_checks_def)
  have s1: "run_password_check id W0 = (Returned (), W1)"
    unfolding run_password_check_def W1_def
    using st0 strong_pass_facts by (rule check_loop_success_world)
  have st1: "stdin W1 = Line (ustr ''y'') # [Line ?pw, Line (ustr ''n'')]"
    by (simp add: W1_def)
  have a1: "ask_yes_no id AnotherPrompt W1 = (Returned True, W2)"
    using ask_yes_no_valid [OF st1 short_answers(1), of AnotherPrompt] short_answers(2)
    by (simp add: W2_def)
  have m1: "main_loop id W0 = main_loop id W2b"
    unfolding W2b_def using s1 a1 by (rule main_loop_again)
  have st2: "stdin W2b = Line ?pw # [Line (ustr ''n'')]"
    by (simp add: W2b_def W2_def)
  have s2: "run_password_check id W2b = (Returned (), W3)"
    unfolding run_password_check_def W3_def
    using st2 strong_pass_facts by (rule check_loop_success_world)
  have st3: "stdin W3 = Line (ustr ''n'') # []"
    by (simp add: W3_def)
  have a2: "ask_yes_no id AnotherPrompt W3 = (Returned False, W4)"
    using ask_yes_no_valid [OF st3 short_answers(3), of AnotherPrompt] short_answers(4)
    by (simp add: W4_def)
  have m2: "main_loop id W2b = (Returned (), emit MsgBye W4)"
    using s2 a2 by (rule main_loop_done)
  have "main id (initial_world two_checks) = (Returned (), emit MsgBye W4)"
    unfolding main_def W0_def [symmetric] m1 m2 ..
  then show ?thesis
    by (simp add: W4_def W3_def W2b_def W2_def W1_def W0_def initial_world_def
        is_feedback_def)
qed

section \<open>The claims of the specification\<close>

text \<open>
  C1. For every string the scorer with its default arguments returns a value (the
  model has no error branch: the function raises nothing), the value lies in [0,5] and
  is the sum of the five predicates: at least 8 code points, an ASCII uppercase letter,
  an ASCII lowercase letter, an ASCII digit, one of the symbols @ $ ! % * ? &. The
  empty string scores 0. The inline computation of version 1.0 gives the same number.
\<close>

theorem score_password_sum:
  "score_password_default p =
     of_bool (8 \<le> length p)
     + of_bool (\<exists>c\<in>set p. 65 \<le> c \<and> c \<le> 90)
     + of_bool (\<exists>c\<in>set p. 97 \<le> c \<and> c \<le> 122)
     + of_bool (\<exists>c\<in>set p. 48 \<le> c \<and> c \<le> 57)
     + of_bool (\<exists>c\<in>set p. c \<in> {64, 36, 33, 37, 42, 63, 38})
   \<and> 0 \<le> score_password_default p \<and> score_password_default p \<le> 5
   \<and> score_password_default [] = 0
   \<and> v1_score p = score_password_default p"
proof -
  have sum: "score_password_default p =
     of_bool (8 \<le> length p)
     + of_bool (\<exists>c\<in>set p. 65 \<le> c \<and> c \<le> 90)
     + of_bool (\<exists>c\<in>set p. 97 \<le> c \<and> c \<le> 122)
     + of_bool (\<exists>c\<in>set p. 48 \<le> c \<and> c \<le> 57)
     + of_bool (\<exists>c\<in>set p. c \<in> {64, 36, 33, 37, 42, 63, 38})"
    unfolding score_password_default_def score_password_def score_steps
    by (simp only: re_search_unfold int_length_ge)
  have range: "0 \<le> score_password_default p \<and> score_password_default p \<le> 5"
    unfolding sum by (rule of_bool_sum_range)
  have empty: "score_password_default [] = 0"
    by (simp add: score_password_default_def score_password_def re_search_def)
  from sum range empty v1_score_eq show ?thesis by blast
qed

theorem score_password_sum_witness:
  "score_password_default (ustr ''Str0ng!Pass'') = 5
   \<and> score_password_default (ustr ''short1'') = 2
   \<and> v1_score (ustr ''short1'') = 2"
  using score_password_sum [of "ustr ''Str0ng!Pass''"] score_password_sum [of "ustr ''short1''"]
  by (simp add: ustr_def)

text \<open>
  C2. On the scores 0 to 5 the rating is Strong for 5, Medium for 3 and 4, Weak for
  0, 1 and 2, and every score in the range falls in one of the three cases. The
  conditional expression version 1.0 writes to its log gives the same label.
\<close>

theorem rating_from_score_range:
  "0 \<le> s \<and> s \<le> 5 \<Longrightarrow>
     (s = 5 \<longrightarrow> rating_from_score s = ''Strong'')
   \<and> (s = 3 \<or> s = 4 \<longrightarrow> rating_from_score s = ''Medium'')
   \<and> (s = 0 \<or> s = 1 \<or> s = 2 \<longrightarrow> rating_from_score s = ''Weak'')
   \<and> (s = 5 \<or> s = 3 \<or> s = 4 \<or> s = 0 \<or> s = 1 \<or> s = 2)
   \<and> v1_log_rating s = rating_from_score s"
  by (auto simp add: rating_from_score_def v1_log_rating_def)

theorem rating_from_score_range_witness:
  "rating_from_score 5 = ''Strong'' \<and> rating_from_score 4 = ''Medium''
   \<and> rating_from_score 3 = ''Medium'' \<and> rating_from_score 2 = ''Weak''
   \<and> rating_from_score 1 = ''Weak'' \<and> rating_from_score 0 = ''Weak''"
  using rating_from_score_range [of 5] rating_from_score_range [of 4]
    rating_from_score_range [of 3] rating_from_score_range [of 2]
    rating_from_score_range [of 1] rating_from_score_range [of 0]
  by simp

text \<open>
  C3. When a password other than blank input is submitted and at least one of the five
  rules is unmet, the output for this submission, from the password prompt up to the
  retry prompt, holds exactly one blocking reason: the message of the first unmet rule
  in the order length, uppercase, lowercase, digit, symbol (\<open>first_unmet\<close>, written
  from the specification's words), whatever else fails. It is followed by the score
  line and the retry prompt.
\<close>

theorem first_unmet_rule_reported:
  assumes "stdin w = Line pw # rest" and "py_strip pw \<noteq> []"
    and "\<exists>r\<in>set priority_order. \<not> rule_holds r pw"
  shows "\<exists>r. first_unmet pw = Some r \<and> validation_chain pw = Some (reason_msg r) \<and>
           prefix
             (stdout w @
                [Prompt PasswordPrompt, MsgChecking, MsgSpinner, reason_msg r,
                 MsgScoreWarn (score_password_default pw)
                   (rating_from_score (score_password_default pw)),
                 Prompt RetryPrompt])
             (stdout (snd (check_loop ucd a w)))"
proof -
  from assms(3) obtain r where r: "first_unmet pw = Some r"
    using first_unmet_Some by blast
  then have vc: "validation_chain pw = Some (reason_msg r)"
    by (simp add: validation_chain_first_unmet)
  from check_loop_failure_prefix [OF assms(1,2) vc, of ucd a] r vc show ?thesis
    by blast
qed

theorem first_unmet_rule_reported_witness:
  "first_unmet (ustr ''lowercase!'') = Some RuleUpper
   \<and> \<not> rule_holds RuleDigit (ustr ''lowercase!'')
   \<and> prefix
       [Prompt PasswordPrompt, MsgChecking, MsgSpinner, MsgNoUpper, MsgScoreWarn 3 ''Medium'',
        Prompt RetryPrompt]
       (stdout (snd (check_loop (\<lambda>s. s) 0 (initial_world [Line (ustr ''lowercase!'')]))))"
proof -
  have "\<exists>r\<in>set priority_order. \<not> rule_holds r (ustr ''lowercase!'')"
    using lowercase_bang_facts(4) by (auto simp add: priority_order_def)
  from first_unmet_rule_reported [OF _ lowercase_bang_facts(1) this,
      of "initial_world [Line (ustr ''lowercase!'')]" "[]" "\<lambda>s. s" 0]
  have "prefix
       [Prompt PasswordPrompt, MsgChecking, MsgSpinner, MsgNoUpper, MsgScoreWarn 3 ''Medium'',
        Prompt RetryPrompt]
       (stdout (snd (check_loop (\<lambda>s. s) 0 (initial_world [Line (ustr ''lowercase!'')]))))"
    by (simp add: lowercase_bang_facts(2,3) initial_world_def rating_from_score_def)
  with lowercase_bang_facts(2,5) show ?thesis by blast
qed

text \<open>
  C4. A submitted password that is not blank takes the success path (success message
  with the attempt count, score 5/5 and rating Strong displayed, one line appended to
  the log with score 5 and rating Strong, the loop returns) if and only if its score
  is 5, that is if and only if all five rules hold. Otherwise one blocking reason is
  printed, then the score and its rating, then the retry prompt.
\<close>

theorem success_iff_score_5:
  assumes "stdin w = Line pw # rest" and "py_strip pw \<noteq> []"
  shows "(check_loop ucd a w =
            (Returned (),
             w\<lparr>stdin := rest,
               stdout := stdout w @
                 [Prompt PasswordPrompt, MsgChecking, MsgSpinner, MsgHurray (a + 1),
                  MsgScoreFire 5 ''Strong'', MsgLogSaved, MsgAllDone],
               logfile := logfile w @ [log_line (clock w (ticks w)) (a + 1) 5 ''Strong''],
               ticks := ticks w + 1\<rparr>)
          \<longleftrightarrow> score_password_default pw = 5)
       \<and> (score_password_default pw = 5 \<longleftrightarrow> (\<forall>r\<in>set priority_order. rule_holds r pw))
       \<and> (score_password_default pw \<noteq> 5 \<longrightarrow>
            (\<exists>reason. validation_chain pw = Some reason
               \<and> reason \<in> {MsgTooShort, MsgNoUpper, MsgNoLower, MsgNoDigit, MsgNoSymbol}
               \<and> prefix
                   (stdout w @
                      [Prompt PasswordPrompt, MsgChecking, MsgSpinner, reason,
                       MsgScoreWarn (score_password_default pw)
                         (rating_from_score (score_password_default pw)),
                       Prompt RetryPrompt])
                   (stdout (snd (check_loop ucd a w)))))"
proof -
  let ?done = "w\<lparr>stdin := rest,
               stdout := stdout w @
                 [Prompt PasswordPrompt, MsgChecking, MsgSpinner, MsgHurray (a + 1),
                  MsgScoreFire 5 ''Strong'', MsgLogSaved, MsgAllDone],
               logfile := logfile w @ [log_line (clock w (ticks w)) (a + 1) 5 ''Strong''],
               ticks := ticks w + 1\<rparr>"
  have fail: "\<exists>reason. validation_chain pw = Some reason
               \<and> reason \<in> {MsgTooShort, MsgNoUpper, MsgNoLower, MsgNoDigit, MsgNoSymbol}
               \<and> prefix
                   (stdout w @
                      [Prompt PasswordPrompt, MsgChecking, MsgSpinner, reason,
                       MsgScoreWarn (score_password_default pw)
                         (rating_from_score (score_password_default pw)),
                       Prompt RetryPrompt])
                   (stdout (snd (check_loop ucd a w)))"
    if "score_password_default pw \<noteq> 5"
  proof -
    from that obtain reason where vc: "validation_chain pw = Some reason"
      using validation_chain_None_iff [of pw] by (cases "validation_chain pw") auto
    from check_loop_failure_prefix [OF assms vc, of ucd a] vc validation_chain_reasons [OF vc]
    show ?thesis by blast
  qed
  have "score_password_default pw = 5" if eq: "check_loop ucd a w = (Returned (), ?done)"
  proof (rule ccontr)
    assume "score_password_default pw \<noteq> 5"
    from fail [OF this] obtain reason where
      m: "reason \<in> {MsgTooShort, MsgNoUpper, MsgNoLower, MsgNoDigit, MsgNoSymbol}"
      and p: "prefix
                (stdout w @
                   [Prompt PasswordPrompt, MsgChecking, MsgSpinner, reason,
                    MsgScoreWarn (score_password_default pw)
                      (rating_from_score (score_password_default pw)),
                    Prompt RetryPrompt])
                (stdout (snd (check_loop ucd a w)))"
      by blast
    from p have "reason = MsgHurray (a + 1)"
      unfolding eq by simp
    with m show False by auto
  qed
  moreover have "check_loop ucd a w = (Returned (), ?done)" if "score_password_default pw = 5"
    using check_loop_success_world [OF assms that] .
  ultimately have one: "check_loop ucd a w = (Returned (), ?done) \<longleftrightarrow> score_password_default pw = 5"
    by blast
  from one rules_all_iff_score [of pw] fail show ?thesis by blast
qed

theorem success_iff_score_5_witness:
  "check_loop (\<lambda>s. s) 0 (initial_world [Line (ustr ''Str0ng!Pass'')]) =
     (Returned (),
      \<lparr>stdin = [],
       stdout = [Prompt PasswordPrompt, MsgChecking, MsgSpinner, MsgHurray 1,
                 MsgScoreFire 5 ''Strong'', MsgLogSaved, MsgAllDone],
       logfile = [''2025-10-16T09:30:00 | attempts=1 | score=5/5 | rating=Strong'' @ [CHR 0x0A]],
       clock = clock (initial_world []), ticks = 1\<rparr>)
   \<and> prefix
       [Prompt PasswordPrompt, MsgChecking, MsgSpinner, MsgTooShort, MsgScoreWarn 2 ''Weak'',
        Prompt RetryPrompt]
       (stdout (snd (check_loop (\<lambda>s. s) 0 (initial_world [Line (ustr ''short1'')]))))"
proof -
  from success_iff_score_5 [OF _ strong_pass_facts(1),
      of "initial_world [Line (ustr ''Str0ng!Pass'')]" "[]" "\<lambda>s. s" 0]
  have "check_loop (\<lambda>s. s) 0 (initial_world [Line (ustr ''Str0ng!Pass'')]) =
     (Returned (),
      (initial_world [Line (ustr ''Str0ng!Pass'')])
        \<lparr>stdin := [],
         stdout := [Prompt PasswordPrompt, MsgChecking, MsgSpinner, MsgHurray 1,
                 MsgScoreFire 5 ''Strong'', MsgLogSaved, MsgAllDone],
         logfile := [log_line (clock (initial_world [Line (ustr ''Str0ng!Pass'')]) 0) 1 5 ''Strong''],
         ticks := 1\<rparr>)"
    by (simp add: strong_pass_facts(2) initial_world_def)
  then have one: "check_loop (\<lambda>s. s) 0 (initial_world [Line (ustr ''Str0ng!Pass'')]) =
     (Returned (),
      \<lparr>stdin = [],
       stdout = [Prompt PasswordPrompt, MsgChecking, MsgSpinner, MsgHurray 1,
                 MsgScoreFire 5 ''Strong'', MsgLogSaved, MsgAllDone],
       logfile = [''2025-10-16T09:30:00 | attempts=1 | score=5/5 | rating=Strong'' @ [CHR 0x0A]],
       clock = clock (initial_world []), ticks = 1\<rparr>)"
    unfolding log_line_examples by (simp add: initial_world_def)
  from success_iff_score_5 [OF _ short1_facts(1),
      of "initial_world [Line (ustr ''short1'')]" "[]" "\<lambda>s. s" 0]
  have two: "prefix
       [Prompt PasswordPrompt, MsgChecking, MsgSpinner, MsgTooShort, MsgScoreWarn 2 ''Weak'',
        Prompt RetryPrompt]
       (stdout (snd (check_loop (\<lambda>s. s) 0 (initial_world [Line (ustr ''short1'')]))))"
    by (simp add: short1_facts initial_world_def rating_from_score_def)
  from one two show ?thesis by blast
qed

text \<open>
  C5. The two versions do not behave alike on every input: version 1.0 is one session,
  the script ends after a success (and exits after a declined retry), while \<open>main\<close>
  of version 2.0 then asks whether to check another password and runs further
  sessions. What holds is the agreement of version 1.0 with one session of version 2.0
  (\<open>run_password_check\<close>, after the banner): unless version 1.0 ends by an interrupt
  that its retry prompt does not catch, both end the same way, leave the same log file
  and the same unread input, and print the same sequence of blocking reasons and score
  lines and the same sequence of closing messages. When that session does not return,
  \<open>main\<close> is that session.
\<close>

theorem v1_agrees_with_one_v2_session:
  assumes "fst (v1_main ucd w) \<noteq> Raised Interrupted"
  shows "session_end (fst (v1_main ucd w)) = fst (run_password_check ucd (emit MsgBanner w))
       \<and> logfile (snd (v1_main ucd w))
           = logfile (snd (run_password_check ucd (emit MsgBanner w)))
       \<and> stdin (snd (v1_main ucd w)) = stdin (snd (run_password_check ucd (emit MsgBanner w)))
       \<and> filter is_feedback (stdout (snd (v1_main ucd w)))
           = filter is_feedback (stdout (snd (run_password_check ucd (emit MsgBanner w))))
       \<and> filter is_closing (stdout (snd (v1_main ucd w)))
           = filter is_closing (stdout (snd (run_password_check ucd (emit MsgBanner w))))
       \<and> (fst (run_password_check ucd (emit MsgBanner w)) \<noteq> Returned () \<longrightarrow>
            main ucd w = run_password_check ucd (emit MsgBanner w))"
proof -
  from assms have ok: "fst (v1_loop ucd 0 (emit MsgBanner w)) \<noteq> Raised Interrupted"
    by (simp add: v1_main_def)
  from v1_loop_agrees [OF agree_refl ok]
  have "session_end (fst (v1_loop ucd 0 (emit MsgBanner w)))
      = fst (check_loop ucd 0 (emit MsgBanner w))"
    and "agree (snd (v1_loop ucd 0 (emit MsgBanner w))) (snd (check_loop ucd 0 (emit MsgBanner w)))"
    by simp_all
  moreover have "main ucd w = run_password_check ucd (emit MsgBanner w)"
    if "fst (run_password_check ucd (emit MsgBanner w)) \<noteq> Returned ()"
    unfolding main_def using that by (rule main_loop_not_returned)
  ultimately show ?thesis
    by (simp add: v1_main_def run_password_check_def agree_def)
qed

theorem v1_agrees_with_one_v2_session_witness:
  "fst (v1_main id (initial_world two_checks)) \<noteq> Raised Interrupted
   \<and> fst (run_password_check id (emit MsgBanner (initial_world two_checks))) = Returned ()
   \<and> logfile (snd (run_password_check id (emit MsgBanner (initial_world two_checks))))
      = [log_line (clock (initial_world []) 0) 1 5 ''Strong'']
   \<and> stdin (snd (run_password_check id (emit MsgBanner (initial_world two_checks))))
      = [Line (ustr ''y''), Line (ustr ''Str0ng!Pass''), Line (ustr ''n'')]"
proof -
  have ok: "fst (v1_main id (initial_world two_checks)) \<noteq> Raised Interrupted"
    using v1_two_checks by simp
  from v1_agrees_with_one_v2_session [OF ok] v1_two_checks ok
  show ?thesis by (simp add: session_end_def)
qed

theorem versions_differ_counterexample:
  "fst (v1_main id (initial_world two_checks)) = Returned EndOfScript
   \<and> stdin (snd (v1_main id (initial_world two_checks)))
      = [Line (ustr ''y''), Line (ustr ''Str0ng!Pass''), Line (ustr ''n'')]
   \<and> stdin (snd (main id (initial_world two_checks))) = []
   \<and> length (logfile (snd (v1_main id (initial_world two_checks)))) = 1
   \<and> length (logfile (snd (main id (initial_world two_checks)))) = 2
   \<and> logfile (snd (v1_main id (initial_world two_checks)))
      \<noteq> logfile (snd (main id (initial_world two_checks)))
   \<and> filter is_feedback (stdout (snd (v1_main id (initial_world two_checks))))
      \<noteq> filter is_feedback (stdout (snd (main id (initial_world two_checks))))"
  using v1_two_checks v2_two_checks by simp

text \<open>
  C6. The line \<open>log_attempt\<close> appends is the ISO timestamp of the clock reading,
  followed by \<open> | attempts=n | score=s/5 | rating=r\<close> and a newline; the function
  receives the count, the score and the rating and never the password. A session
  appends at most one such line, whose rating is the one of its score. Two sessions
  that start from the same log and read the same input, except that the first
  password typed is \<open>p\<close> in one and \<open>q\<close> in the other, both not blank and with the
  same score, end the same way and leave logs that are equal line by line once the
  timestamp is removed (\<open>payload\<close>), whatever the two clocks show and whatever was
  printed before.
\<close>

theorem log_independent_of_password:
  "logfile (log_attempt n s r w) =
     logfile w @
       [isoformat (clock w (ticks w)) @ '' | attempts='' @ str_int n @ '' | score=''
          @ str_int s @ ''/5 | rating='' @ r @ [CHR 0x0A]]
   \<and> (logfile (snd (check_loop ucd a w)) = logfile w
        \<or> (\<exists>k sc. a < k \<and> 0 \<le> sc \<and> sc \<le> 5
             \<and> logfile (snd (check_loop ucd a w)) =
                 logfile w @ [log_line (clock w (ticks w)) k sc (rating_from_score sc)]))
   \<and> (stdin w = Line p # rest \<and> stdin w' = Line q # rest
        \<and> py_strip p \<noteq> [] \<and> py_strip q \<noteq> []
        \<and> score_password_default p = score_password_default q
        \<and> logfile w' = logfile w \<longrightarrow>
        fst (check_loop ucd a w) = fst (check_loop ucd a w')
        \<and> map payload (logfile (snd (check_loop ucd a w)))
            = map payload (logfile (snd (check_loop ucd a w'))))"
proof (intro conjI impI)
  show "logfile (log_attempt n s r w) =
     logfile w @
       [isoformat (clock w (ticks w)) @ '' | attempts='' @ str_int n @ '' | score=''
          @ str_int s @ ''/5 | rating='' @ r @ [CHR 0x0A]]"
    by (simp add: log_line_def)
next
  show "logfile (snd (check_loop ucd a w)) = logfile w
        \<or> (\<exists>k sc. a < k \<and> 0 \<le> sc \<and> sc \<le> 5
             \<and> logfile (snd (check_loop ucd a w)) =
                 logfile w @ [log_line (clock w (ticks w)) k sc (rating_from_score sc)])"
    using check_loop_one_entry [of a w ucd] unfolding one_entry_def .
next
  assume h: "stdin w = Line p # rest \<and> stdin w' = Line q # rest
        \<and> py_strip p \<noteq> [] \<and> py_strip q \<noteq> []
        \<and> score_password_default p = score_password_default q
        \<and> logfile w' = logfile w"
  then have sg: "safe_getpass PasswordPrompt w = (Returned p, consume PasswordPrompt w)"
    and sg': "safe_getpass PasswordPrompt w' = (Returned q, consume PasswordPrompt w')"
    by (simp_all add: safe_getpass_Line)
  from h have rel: "same_log (consume PasswordPrompt w) (consume PasswordPrompt w')"
    by (simp add: same_log_def)
  from h have nb: "py_strip p \<noteq> []" "py_strip q \<noteq> []"
    and sc: "score_password_default p = score_password_default q" by simp_all
  have "fst (check_loop ucd a w) = fst (check_loop ucd a w')
       \<and> same_log (snd (check_loop ucd a w)) (snd (check_loop ucd a w'))"
    using sg sg' rel nb sc
  proof (rule attempt_same_log)
    fix a2 v v'
    assume "same_log v v'"
    then show "fst (check_loop ucd a2 v) = fst (check_loop ucd a2 v')
          \<and> same_log (snd (check_loop ucd a2 v)) (snd (check_loop ucd a2 v'))"
      by (rule check_loop_same_log)
  qed
  then show "fst (check_loop ucd a w) = fst (check_loop ucd a w')"
    and "map payload (logfile (snd (check_loop ucd a w)))
            = map payload (logfile (snd (check_loop ucd a w')))"
    by (simp_all add: same_log_def)
qed

theorem log_independent_of_password_witness:
  "fst (check_loop (\<lambda>s. s) 0 (initial_world [Line (ustr ''short1''), Line (ustr ''no'')]))
     = fst (check_loop (\<lambda>s. s) 0
         ((initial_world [Line (ustr ''abcdefgh''), Line (ustr ''no'')])
            \<lparr>stdout := [MsgBanner], ticks := 7\<rparr>))
   \<and> map payload
       (logfile (snd (check_loop (\<lambda>s. s) 0
          (initial_world [Line (ustr ''short1''), Line (ustr ''no'')]))))
     = map payload
         (logfile (snd (check_loop (\<lambda>s. s) 0
            ((initial_world [Line (ustr ''abcdefgh''), Line (ustr ''no'')])
               \<lparr>stdout := [MsgBanner], ticks := 7\<rparr>))))
   \<and> payload (''2025-10-16T09:30:00 | attempts=1 | score=2/5 | rating=Weak'' @ [CHR 0x0A])
       = '' | attempts=1 | score=2/5 | rating=Weak'' @ [CHR 0x0A]"
proof -
  let ?w = "initial_world [Line (ustr ''short1''), Line (ustr ''no'')]"
  let ?w' = "(initial_world [Line (ustr ''abcdefgh''), Line (ustr ''no'')])
            \<lparr>stdout := [MsgBanner], ticks := 7\<rparr>"
  have h: "stdin ?w = Line (ustr ''short1'') # [Line (ustr ''no'')]
        \<and> stdin ?w' = Line (ustr ''abcdefgh'') # [Line (ustr ''no'')]
        \<and> py_strip (ustr ''short1'') \<noteq> [] \<and> py_strip (ustr ''abcdefgh'') \<noteq> []
        \<and> score_password_default (ustr ''short1'') = score_password_default (ustr ''abcdefgh'')
        \<and> logfile ?w' = logfile ?w"
    using short1_facts(1) abcdefgh_facts(1)
    by (simp add: initial_world_def short1_facts(2) abcdefgh_facts(2))
  have p: "payload (''2025-10-16T09:30:00 | attempts=1 | score=2/5 | rating=Weak'' @ [CHR 0x0A])
       = '' | attempts=1 | score=2/5 | rating=Weak'' @ [CHR 0x0A]"
    by (simp add: payload_def)
  from log_independent_of_password [of 0 0 "[]" ?w "\<lambda>s. s" 0 "ustr ''short1''"
      "[Line (ustr ''no'')]" ?w' "ustr ''abcdefgh''", THEN conjunct2, THEN conjunct2,
      rule_format, OF h] p
  show ?thesis by blast
qed

text \<open>
  C7. When the submitted input is empty or consists of whitespace only, the loop goes
  back to its head with the same attempt counter, the same log file and the same clock
  reading: the only effect is the echo of the prompt and the empty-input notice, no
  score, rating or rule feedback is printed, and the password prompt is shown again.
\<close>

theorem blank_input_changes_nothing:
  assumes "stdin w = Line s # rest" and "\<forall>c\<in>set s. py_isspace c"
  shows "check_loop ucd a w =
           check_loop ucd a
             (w\<lparr>stdin := rest, stdout := stdout w @ [Prompt PasswordPrompt, MsgEmpty]\<rparr>)
       \<and> prefix (stdout w @ [Prompt PasswordPrompt, MsgEmpty, Prompt PasswordPrompt])
           (stdout (snd (check_loop ucd a w)))
       \<and> (rest = [] \<longrightarrow>
            check_loop ucd a w =
              (Blocked,
               w\<lparr>stdin := [],
                 stdout := stdout w @ [Prompt PasswordPrompt, MsgEmpty, Prompt PasswordPrompt]\<rparr>))"
proof -
  let ?w = "w\<lparr>stdin := rest, stdout := stdout w @ [Prompt PasswordPrompt, MsgEmpty]\<rparr>"
  have blank: "py_strip s = []"
    using assms(2) by (simp add: py_strip_Nil_iff)
  have sg: "safe_getpass PasswordPrompt w = (Returned s, consume PasswordPrompt w)"
    using assms(1) by (rule safe_getpass_Line)
  have weq: "emit MsgEmpty (consume PasswordPrompt w) = ?w"
    using assms(1) by (simp add: emit_def consume_def)
  have one: "check_loop ucd a w = check_loop ucd a ?w"
    using check_loop_blank [OF sg blank, of ucd a] weq by simp
  have two: "prefix (stdout w @ [Prompt PasswordPrompt, MsgEmpty, Prompt PasswordPrompt])
           (stdout (snd (check_loop ucd a w)))"
    using check_loop_prompts [of ?w ucd a] one by simp
  have three: "check_loop ucd a w =
              (Blocked,
               w\<lparr>stdin := [],
                 stdout := stdout w @ [Prompt PasswordPrompt, MsgEmpty, Prompt PasswordPrompt]\<rparr>)"
    if "rest = []"
  proof -
    have "safe_getpass PasswordPrompt ?w = (Blocked, emit (Prompt PasswordPrompt) ?w)"
      using that by (intro safe_getpass_Nil) simp
    then have "check_loop ucd a ?w = (Blocked, emit (Prompt PasswordPrompt) ?w)"
      by (rule check_loop_Blocked)
    with one that show ?thesis by (simp add: emit_def)
  qed
  from one two three show ?thesis by blast
qed

theorem blank_input_changes_nothing_witness:
  "check_loop (\<lambda>s. s) 0 (initial_world [Line (ustr ''   '')]) =
     (Blocked,
      \<lparr>stdin = [], stdout = [Prompt PasswordPrompt, MsgEmpty, Prompt PasswordPrompt],
       logfile = [], clock = clock (initial_world []), ticks = 0\<rparr>)
   \<and> check_loop (\<lambda>s. s) 0 (initial_world [Line [], Line (ustr ''Str0ng!Pass'')]) =
       check_loop (\<lambda>s. s) 0
         \<lparr>stdin = [Line (ustr ''Str0ng!Pass'')], stdout = [Prompt PasswordPrompt, MsgEmpty],
          logfile = [], clock = clock (initial_world []), ticks = 0\<rparr>"
proof -
  have sp: "\<forall>c\<in>set (ustr ''   ''). py_isspace c"
    by (simp add: ustr_def py_isspace_def)
  have st: "stdin (initial_world [Line (ustr ''   '')]) = Line (ustr ''   '') # []"
    by (simp add: initial_world_def)
  from blank_input_changes_nothing [OF st sp, of "\<lambda>s. s" 0, THEN conjunct2, THEN conjunct2]
  have one: "check_loop (\<lambda>s. s) 0 (initial_world [Line (ustr ''   '')]) =
     (Blocked,
      \<lparr>stdin = [], stdout = [Prompt PasswordPrompt, MsgEmpty, Prompt PasswordPrompt],
       logfile = [], clock = clock (initial_world []), ticks = 0\<rparr>)"
    by (simp add: initial_world_def)
  have e: "\<forall>c\<in>set ([]::pystr). py_isspace c" by simp
  have st2: "stdin (initial_world [Line [], Line (ustr ''Str0ng!Pass'')]) =
      Line [] # [Line (ustr ''Str0ng!Pass'')]"
    by (simp add: initial_world_def)
  from blank_input_changes_nothing [OF st2 e, of "\<lambda>s. s" 0, THEN conjunct1]
  have two: "check_loop (\<lambda>s. s) 0 (initial_world [Line [], Line (ustr ''Str0ng!Pass'')]) =
       check_loop (\<lambda>s. s) 0
         \<lparr>stdin = [Line (ustr ''Str0ng!Pass'')], stdout = [Prompt PasswordPrompt, MsgEmpty],
          logfile = [], clock = clock (initial_world []), ticks = 0\<rparr>"
    by (simp add: initial_world_def)
  from one two show ?thesis by blast
qed

text \<open>
  C8. After a failing attempt (a submitted password for which the chain prints a
  blocking reason) the retry question is asked. When its answer is no, the session
  prints its closing messages, appends exactly one line to the log, with the attempt
  count, the score and the rating of this last attempt, and returns. When its answer
  is yes, the loop starts over with the counter incremented and nothing is written to
  the log.
\<close>

theorem retry_answer_decides:
  assumes "stdin w = Line pw # rest" and "py_strip pw \<noteq> []"
    and "validation_chain pw = Some reason"
  shows "let sc = score_password_default pw;
             asked = w\<lparr>stdin := rest,
                       stdout := stdout w @
                         [Prompt PasswordPrompt, MsgChecking, MsgSpinner, reason,
                          MsgScoreWarn sc (rating_from_score sc)]\<rparr>
         in prefix (stdout asked @ [Prompt RetryPrompt]) (stdout (snd (check_loop ucd a w)))
          \<and> (\<forall>w5. ask_yes_no ucd RetryPrompt asked = (Returned False, w5) \<longrightarrow>
                check_loop ucd a w =
                  (Returned (),
                   w5\<lparr>stdout := stdout w5 @ [MsgAllDone, MsgThanks (a + 1), MsgLogSaved],
                      logfile := logfile w @
                        [log_line (clock w (ticks w)) (a + 1) sc (rating_from_score sc)],
                      ticks := ticks w + 1\<rparr>))
          \<and> (\<forall>w5. ask_yes_no ucd RetryPrompt asked = (Returned True, w5) \<longrightarrow>
                check_loop ucd a w = check_loop ucd (a + 1) (w5\<lparr>stdout := stdout w5 @ [MsgBlank]\<rparr>)
                \<and> logfile w5 = logfile w \<and> ticks w5 = ticks w)"
proof -
  define sc where "sc = score_password_default pw"
  define asked where "asked = w\<lparr>stdin := rest,
                       stdout := stdout w @
                         [Prompt PasswordPrompt, MsgChecking, MsgSpinner, reason,
                          MsgScoreWarn sc (rating_from_score sc)]\<rparr>"
  have sg: "safe_getpass PasswordPrompt w = (Returned pw, consume PasswordPrompt w)"
    using assms(1) by (rule safe_getpass_Line)
  have fw: "failed_world pw reason (consume PasswordPrompt w) = asked"
    unfolding asked_def sc_def using assms(1) by (rule failed_world_eq)
  have asked_same: "logfile asked = logfile w" "clock asked = clock w" "ticks asked = ticks w"
    by (simp_all add: asked_def)
  have one: "prefix (stdout asked @ [Prompt RetryPrompt]) (stdout (snd (check_loop ucd a w)))"
    using check_loop_failure_prefix [OF assms, of ucd a] by (simp add: asked_def sc_def)
  have two: "check_loop ucd a w =
                  (Returned (),
                   w5\<lparr>stdout := stdout w5 @ [MsgAllDone, MsgThanks (a + 1), MsgLogSaved],
                      logfile := logfile w @
                        [log_line (clock w (ticks w)) (a + 1) sc (rating_from_score sc)],
                      ticks := ticks w + 1\<rparr>)"
    if yn: "ask_yes_no ucd RetryPrompt asked = (Returned False, w5)" for w5
  proof -
    have "io_only asked w5"
      using ask_yes_no_io [of asked ucd RetryPrompt] yn by simp
    then have same: "logfile w5 = logfile w" "clock w5 = clock w" "ticks w5 = ticks w"
      using asked_same by (simp_all add: io_only_def)
    have "check_loop ucd a w =
        (Returned (),
         log_attempt (a + 1) sc (rating_from_score sc)
           (emit (MsgThanks (a + 1)) (emit MsgAllDone w5)))"
      unfolding sc_def using sg assms(2,3) yn [folded fw] by (rule check_loop_failure_no)
    then show ?thesis
      unfolding decline_world_eq same .
  qed
  have three: "check_loop ucd a w = check_loop ucd (a + 1) (w5\<lparr>stdout := stdout w5 @ [MsgBlank]\<rparr>)
                \<and> logfile w5 = logfile w \<and> ticks w5 = ticks w"
    if yn: "ask_yes_no ucd RetryPrompt asked = (Returned True, w5)" for w5
  proof -
    have "io_only asked w5"
      using ask_yes_no_io [of asked ucd RetryPrompt] yn by simp
    then have same: "logfile w5 = logfile w" "ticks w5 = ticks w"
      using asked_same by (simp_all add: io_only_def)
    have "check_loop ucd a w = check_loop ucd (a + 1) (emit MsgBlank w5)"
      using sg assms(2,3) yn [folded fw] by (rule check_loop_failure_yes)
    with same show ?thesis by (simp add: emit_def)
  qed
  from one two three show ?thesis
    unfolding Let_def sc_def [symmetric] asked_def [symmetric] by blast
qed

theorem retry_answer_decides_witness:
  "check_loop (\<lambda>s. s) 0 (initial_world [Line (ustr ''short1''), Line (ustr ''no'')]) =
     (Returned (),
      \<lparr>stdin = [],
       stdout = [Prompt PasswordPrompt, MsgChecking, MsgSpinner, MsgTooShort,
                 MsgScoreWarn 2 ''Weak'', Prompt RetryPrompt, MsgAllDone, MsgThanks 1,
                 MsgLogSaved],
       logfile = [''2025-10-16T09:30:00 | attempts=1 | score=2/5 | rating=Weak'' @ [CHR 0x0A]],
       clock = clock (initial_world []), ticks = 1\<rparr>)
   \<and> check_loop (\<lambda>s. s) 0 (initial_world [Line (ustr ''short1''), Line (ustr ''yes'')]) =
       check_loop (\<lambda>s. s) 1
         \<lparr>stdin = [],
          stdout = [Prompt PasswordPrompt, MsgChecking, MsgSpinner, MsgTooShort,
                    MsgScoreWarn 2 ''Weak'', Prompt RetryPrompt, MsgBlank],
          logfile = [], clock = clock (initial_world []), ticks = 0\<rparr>"
proof -
  let ?asked = "\<lambda>ans. \<lparr>stdin = [Line (ustr ans)],
       stdout = [Prompt PasswordPrompt, MsgChecking, MsgSpinner, MsgTooShort,
                 MsgScoreWarn 2 ''Weak''],
       logfile = [], clock = clock (initial_world []), ticks = 0\<rparr>"
  have no_valid: "norm_answer (\<lambda>s. s) (ustr ''no'') \<in> valid_answers"
    and yes_valid: "norm_answer (\<lambda>s. s) (ustr ''yes'') \<in> valid_answers"
    by (simp_all add: answer_examples valid_answers_def)
  have no_val: "norm_answer (\<lambda>s. s) (ustr ''no'') \<notin> valid_yes"
    and yes_val: "norm_answer (\<lambda>s. s) (ustr ''yes'') \<in> valid_yes"
    unfolding answer_examples by (simp_all add: valid_yes_def ustr_def)
  have yn_no: "ask_yes_no (\<lambda>s. s) RetryPrompt (?asked ''no'') =
      (Returned False, (?asked ''no'')\<lparr>stdin := [],
         stdout := stdout (?asked ''no'') @ [Prompt RetryPrompt]\<rparr>)"
    using ask_yes_no_valid [OF _ no_valid, of "?asked ''no''" "[]" RetryPrompt] no_val by simp
  have yn_yes: "ask_yes_no (\<lambda>s. s) RetryPrompt (?asked ''yes'') =
      (Returned True, (?asked ''yes'')\<lparr>stdin := [],
         stdout := stdout (?asked ''yes'') @ [Prompt RetryPrompt]\<rparr>)"
    using ask_yes_no_valid [OF _ yes_valid, of "?asked ''yes''" "[]" RetryPrompt] yes_val by simp
  have st_no: "stdin (initial_world [Line (ustr ''short1''), Line (ustr ''no'')]) =
      Line (ustr ''short1'') # [Line (ustr ''no'')]"
    and st_yes: "stdin (initial_world [Line (ustr ''short1''), Line (ustr ''yes'')]) =
      Line (ustr ''short1'') # [Line (ustr ''yes'')]"
    by (simp_all add: initial_world_def)
  from retry_answer_decides [OF st_no short1_facts(1,3), of "\<lambda>s. s" 0]
  have "\<forall>w5. ask_yes_no (\<lambda>s. s) RetryPrompt (?asked ''no'') = (Returned False, w5) \<longrightarrow>
      check_loop (\<lambda>s. s) 0 (initial_world [Line (ustr ''short1''), Line (ustr ''no'')]) =
        (Returned (),
         w5\<lparr>stdout := stdout w5 @ [MsgAllDone, MsgThanks 1, MsgLogSaved],
            logfile := [log_line (clock (initial_world []) 0) 1 2 ''Weak''],
            ticks := 1\<rparr>)"
    by (simp add: Let_def short1_facts(2) initial_world_def rating_from_score_def)
  from this [rule_format, OF yn_no] have one:
    "check_loop (\<lambda>s. s) 0 (initial_world [Line (ustr ''short1''), Line (ustr ''no'')]) =
     (Returned (),
      \<lparr>stdin = [],
       stdout = [Prompt PasswordPrompt, MsgChecking, MsgSpinner, MsgTooShort,
                 MsgScoreWarn 2 ''Weak'', Prompt RetryPrompt, MsgAllDone, MsgThanks 1,
                 MsgLogSaved],
       logfile = [''2025-10-16T09:30:00 | attempts=1 | score=2/5 | rating=Weak'' @ [CHR 0x0A]],
       clock = clock (initial_world []), ticks = 1\<rparr>)"
    unfolding log_line_examples by simp
  from retry_answer_decides [OF st_yes short1_facts(1,3), of "\<lambda>s. s" 0]
  have "\<forall>w5. ask_yes_no (\<lambda>s. s) RetryPrompt (?asked ''yes'') = (Returned True, w5) \<longrightarrow>
      check_loop (\<lambda>s. s) 0 (initial_world [Line (ustr ''short1''), Line (ustr ''yes'')]) =
        check_loop (\<lambda>s. s) 1 (w5\<lparr>stdout := stdout w5 @ [MsgBlank]\<rparr>)"
    by (simp add: Let_def short1_facts(2) initial_world_def rating_from_score_def)
  from this [rule_format, OF yn_yes] have two:
    "check_loop (\<lambda>s. s) 0 (initial_world [Line (ustr ''short1''), Line (ustr ''yes'')]) =
       check_loop (\<lambda>s. s) 1
         \<lparr>stdin = [],
          stdout = [Prompt PasswordPrompt, MsgChecking, MsgSpinner, MsgTooShort,
                    MsgScoreWarn 2 ''Weak'', Prompt RetryPrompt, MsgBlank],
          logfile = [], clock = clock (initial_world []), ticks = 0\<rparr>"
    by simp
  from one two show ?thesis by blast
qed

text \<open>
  C9. \<open>ask_yes_no\<close> returns only on a valid answer. If the pending input starts with
  responses that are all skipped (lines whose trimmed, lowercased form is not one of y,
  yes, n, no; interrupts), followed by a line whose form is one of the four, every
  skipped response is answered by a notice and the prompt again, and the function
  returns \<open>True\<close> when that first valid line is y or yes and \<open>False\<close> when it is n
  or no, leaving the rest of the input unread. Conversely whenever it returns, the
  input has this shape and the value is the one of the first valid line. A single
  invalid line leads back to the prompt.
\<close>

theorem ask_yes_no_first_valid_answer:
  "(\<forall>pre ans rest.
      stdin w = pre @ Line ans # rest \<and> list_all (skipped ucd) pre
        \<and> norm_answer ucd ans \<in> valid_answers \<longrightarrow>
      ask_yes_no ucd p w =
        (Returned (norm_answer ucd ans \<in> {ustr ''y'', ustr ''yes''}),
         w\<lparr>stdin := rest,
           stdout := stdout w @ concat (map (reprompt_output p) pre) @ [Prompt p]\<rparr>))
   \<and> (\<forall>b w'. ask_yes_no ucd p w = (Returned b, w') \<longrightarrow>
        (\<exists>pre ans rest.
           stdin w = pre @ Line ans # rest \<and> list_all (skipped ucd) pre
             \<and> norm_answer ucd ans \<in> valid_answers
             \<and> (b \<longleftrightarrow> norm_answer ucd ans \<in> {ustr ''y'', ustr ''yes''})
             \<and> (\<not> b \<longleftrightarrow> norm_answer ucd ans \<in> {ustr ''n'', ustr ''no''})
             \<and> stdin w' = rest))
   \<and> (\<forall>ans rest.
        stdin w = Line ans # rest \<and> norm_answer ucd ans \<notin> valid_answers \<longrightarrow>
        ask_yes_no ucd p w =
          ask_yes_no ucd p (w\<lparr>stdin := rest, stdout := stdout w @ [Prompt p, MsgNotYesNo]\<rparr>))"
proof (intro conjI allI impI)
  fix pre ans rest
  assume "stdin w = pre @ Line ans # rest \<and> list_all (skipped ucd) pre
        \<and> norm_answer ucd ans \<in> valid_answers"
  then show "ask_yes_no ucd p w =
        (Returned (norm_answer ucd ans \<in> {ustr ''y'', ustr ''yes''}),
         w\<lparr>stdin := rest,
           stdout := stdout w @ concat (map (reprompt_output p) pre) @ [Prompt p]\<rparr>)"
    using ask_yes_no_answers [of w pre ans rest ucd p] by (simp add: valid_yes_def)
next
  fix b w'
  assume "ask_yes_no ucd p w = (Returned b, w')"
  from ask_yes_no_returned [OF this] obtain pre ans rest where
    *: "stdin w = pre @ Line ans # rest" "list_all (skipped ucd) pre"
      "norm_answer ucd ans \<in> valid_answers" "b = (norm_answer ucd ans \<in> valid_yes)"
      "stdin w' = rest"
    by blast
  from *(3,4) have "\<not> b \<longleftrightarrow> norm_answer ucd ans \<in> valid_no"
    using valid_yes_no_disjoint [of "norm_answer ucd ans"] by (auto simp add: valid_answers_split)
  with * have "stdin w = pre @ Line ans # rest \<and> list_all (skipped ucd) pre
             \<and> norm_answer ucd ans \<in> valid_answers
             \<and> (b \<longleftrightarrow> norm_answer ucd ans \<in> {ustr ''y'', ustr ''yes''})
             \<and> (\<not> b \<longleftrightarrow> norm_answer ucd ans \<in> {ustr ''n'', ustr ''no''})
             \<and> stdin w' = rest"
    by (simp add: valid_yes_def valid_no_def)
  then show "\<exists>pre ans rest.
           stdin w = pre @ Line ans # rest \<and> list_all (skipped ucd) pre
             \<and> norm_answer ucd ans \<in> valid_answers
             \<and> (b \<longleftrightarrow> norm_answer ucd ans \<in> {ustr ''y'', ustr ''yes''})
             \<and> (\<not> b \<longleftrightarrow> norm_answer ucd ans \<in> {ustr ''n'', ustr ''no''})
             \<and> stdin w' = rest"
    by blast
next
  fix ans rest
  assume "stdin w = Line ans # rest \<and> norm_answer ucd ans \<notin> valid_answers"
  then show "ask_yes_no ucd p w =
          ask_yes_no ucd p (w\<lparr>stdin := rest, stdout := stdout w @ [Prompt p, MsgNotYesNo]\<rparr>)"
    using ask_yes_no_invalid [of w ans rest ucd p] by blast
qed

theorem ask_yes_no_first_valid_answer_witness:
  "ask_yes_no (\<lambda>s. s) RetryPrompt
     (initial_world
        [Line (ustr ''maybe''), Raise Interrupted, Line (ustr '' YES ''), Line (ustr ''n'')]) =
     (Returned True,
      \<lparr>stdin = [Line (ustr ''n'')],
       stdout = [Prompt RetryPrompt, MsgNotYesNo, Prompt RetryPrompt, MsgInterruptedYN,
                 Prompt RetryPrompt],
       logfile = [], clock = clock (initial_world []), ticks = 0\<rparr>)
   \<and> ask_yes_no (\<lambda>s. s) RetryPrompt (initial_world [Line (ustr ''N'')]) =
     (Returned False,
      \<lparr>stdin = [], stdout = [Prompt RetryPrompt],
       logfile = [], clock = clock (initial_world []), ticks = 0\<rparr>)"
proof -
  let ?w = "initial_world
        [Line (ustr ''maybe''), Raise Interrupted, Line (ustr '' YES ''), Line (ustr ''n'')]"
  have a: "stdin ?w = [Line (ustr ''maybe''), Raise Interrupted] @ Line (ustr '' YES '')
        # [Line (ustr ''n'')]
      \<and> list_all (skipped (\<lambda>s. s)) [Line (ustr ''maybe''), Raise Interrupted]
      \<and> norm_answer (\<lambda>s. s) (ustr '' YES '') \<in> valid_answers"
  proof -
    have "norm_answer (\<lambda>s. s) (ustr '' YES '') \<in> valid_answers"
      by (simp add: answer_examples(2) valid_answers_def)
    then show ?thesis by (simp add: initial_world_def answer_examples(1))
  qed
  from ask_yes_no_first_valid_answer [of ?w "\<lambda>s. s" RetryPrompt, THEN conjunct1,
      rule_format, OF a]
  have one: "ask_yes_no (\<lambda>s. s) RetryPrompt ?w =
     (Returned True,
      \<lparr>stdin = [Line (ustr ''n'')],
       stdout = [Prompt RetryPrompt, MsgNotYesNo, Prompt RetryPrompt, MsgInterruptedYN,
                 Prompt RetryPrompt],
       logfile = [], clock = clock (initial_world []), ticks = 0\<rparr>)"
    by (simp add: initial_world_def answer_examples)
  let ?v = "initial_world [Line (ustr ''N'')]"
  have b: "stdin ?v = [] @ Line (ustr ''N'') # []
      \<and> list_all (skipped (\<lambda>s. s)) []
      \<and> norm_answer (\<lambda>s. s) (ustr ''N'') \<in> valid_answers"
  proof -
    have "norm_answer (\<lambda>s. s) (ustr ''N'') \<in> valid_answers"
      by (simp add: answer_examples(3) valid_answers_def)
    then show ?thesis by (simp add: initial_world_def)
  qed
  have ne: "ustr ''n'' \<noteq> ustr ''y''" "ustr ''n'' \<noteq> ustr ''yes''"
    by (simp_all add: ustr_def)
  from ask_yes_no_first_valid_answer [of ?v "\<lambda>s. s" RetryPrompt, THEN conjunct1,
      rule_format, OF b]
  have two: "ask_yes_no (\<lambda>s. s) RetryPrompt ?v =
     (Returned False,
      \<lparr>stdin = [], stdout = [Prompt RetryPrompt],
       logfile = [], clock = clock (initial_world []), ticks = 0\<rparr>)"
    by (simp add: initial_world_def answer_examples ne)
  from one two show ?thesis by blast
qed

text \<open>
  C10. On every integer the rating is Strong exactly for 5, Medium for every other
  integer from 3 upwards (so for 6 and beyond), and Weak for every integer below 3
  (so for every negative one).
\<close>

theorem rating_from_score_total:
  "(rating_from_score n = ''Strong'' \<longleftrightarrow> n = 5)
   \<and> (n \<ge> 3 \<and> n \<noteq> 5 \<longrightarrow> rating_from_score n = ''Medium'')
   \<and> (n < 3 \<longrightarrow> rating_from_score n = ''Weak'')"
  by (simp add: rating_from_score_def)

theorem rating_from_score_total_witness:
  "rating_from_score 5 = ''Strong'' \<and> rating_from_score 6 = ''Medium''
   \<and> rating_from_score 1000 = ''Medium'' \<and> rating_from_score (- 7) = ''Weak''
   \<and> rating_from_score 2 = ''Weak''"
  using rating_from_score_total [of 5] rating_from_score_total [of 6]
    rating_from_score_total [of 1000] rating_from_score_total [of "- 7"]
    rating_from_score_total [of 2]
  by simp

end
